theory Spec2Isabelle
  imports
    Complex_Main
    "HOL-Library.Char_ord"
    "HOL-Library.List_Lexorder"
    "HOL-Library.Multiset"
begin

section \<open>Python built-ins used by the scripts\<close>

text \<open>
  Strings are \<^typ>\<open>string\<close>; the order on them is the lexicographic order on code
  points, which is what Python's \<^verbatim>\<open>sorted\<close> uses on \<^verbatim>\<open>str\<close>.
  Only the ASCII digits and the ASCII white space are modelled.
\<close>

datatype py_error = KeyError | ValueError | OverflowError | OSError

definition is_digit :: "char \<Rightarrow> bool" where
  "is_digit c = (c \<in> set ''0123456789'')"

definition is_space :: "char \<Rightarrow> bool" where
  "is_space c = (let n = (of_char c :: nat) in (9 \<le> n \<and> n \<le> 13) \<or> (28 \<le> n \<and> n \<le> 32))"

definition digit_val :: "char \<Rightarrow> nat" where
  "digit_val c = of_char c - 48"

text \<open>The number a string of decimal digits denotes, most significant digit first.\<close>

definition dec_val :: "string \<Rightarrow> nat" where
  "dec_val ds = foldl (\<lambda>n c. 10 * n + digit_val c) 0 ds"

text \<open>\<^verbatim>\<open>s.strip()\<close>\<close>

definition strip :: "string \<Rightarrow> string" where
  "strip s = rev (dropWhile is_space (rev (dropWhile is_space s)))"

text \<open>\<^verbatim>\<open>s.endswith(suf)\<close>\<close>

definition endswith :: "string \<Rightarrow> string \<Rightarrow> bool" where
  "endswith s suf = (length suf \<le> length s \<and> drop (length s - length suf) s = suf)"

text \<open>
  \<^verbatim>\<open>os.path.splitext(p)[0]\<close> for a name without a directory separator (the names
  come from \<^verbatim>\<open>os.listdir\<close>): the name is cut at its last dot, unless every character
  before that dot is itself a dot.
\<close>

definition before_last_dot :: "string \<Rightarrow> string" where
  "before_last_dot p = rev (tl (dropWhile (\<lambda>c. c \<noteq> CHR ''.'') (rev p)))"

definition splitext_root :: "string \<Rightarrow> string" where
  "splitext_root p =
     (if CHR ''.'' \<in> set p \<and> (\<exists>c \<in> set (before_last_dot p). c \<noteq> CHR ''.'')
      then before_last_dot p else p)"

text \<open>
  \<^verbatim>\<open>Series.str.extract(r"(\d+)")\<close> on one value: the leftmost match of
  \<^verbatim>\<open>\d+\<close>, taken greedily; no match gives a missing value.
\<close>

fun greedy_digits :: "string \<Rightarrow> string" where
  "greedy_digits [] = []"
| "greedy_digits (c # cs) = (if is_digit c then c # greedy_digits cs else [])"

fun str_extract_digits :: "string \<Rightarrow> string option" where
  "str_extract_digits [] = None"
| "str_extract_digits (c # cs) =
     (if is_digit c then Some (c # greedy_digits cs) else str_extract_digits cs)"

text \<open>
  \<^verbatim>\<open>.astype(int)\<close> on one extracted value: a missing value cannot be converted
  (\<^verbatim>\<open>ValueError\<close>), and the target type is a signed 64-bit integer
  (\<^verbatim>\<open>OverflowError\<close> beyond it).
\<close>

definition astype_int :: "string option \<Rightarrow> py_error + int" where
  "astype_int v =
     (case v of
        None \<Rightarrow> Inl ValueError
      | Some ds \<Rightarrow> if int (dec_val ds) < 2 ^ 63 then Inr (int (dec_val ds)) else Inl OverflowError)"

text \<open>Converting a whole column stops at the first value that raises.\<close>

fun astype_int_col :: "string option list \<Rightarrow> py_error + int list" where
  "astype_int_col [] = Inr []"
| "astype_int_col (v # vs) =
     (case astype_int v of
        Inl e \<Rightarrow> Inl e
      | Inr n \<Rightarrow> (case astype_int_col vs of Inl e \<Rightarrow> Inl e | Inr ns \<Rightarrow> Inr (n # ns)))"


section \<open>The prompt consolidator\<close>

text \<open>
  \<^verbatim>\<open>consolidate_original_prompts_for_enhancement.py\<close>. The folder is what the script
  sees of it: the names \<^verbatim>\<open>os.listdir\<close> returns and, for each name, the text that
  reading the file yields (\<open>None\<close> when opening or decoding raises).
\<close>

record folder =
  listdir :: "string list"
  read_text :: "string \<rightharpoonup> string"

record prompt_row =
  row_id :: int
  prompt_original :: string

text \<open>\<^verbatim>\<open>txt_files = sorted([f for f in os.listdir(original_folder) if f.endswith(".txt")])\<close>\<close>

definition txt_files :: "folder \<Rightarrow> string list" where
  "txt_files fd = sort (filter (\<lambda>f. endswith f ''.txt'') (listdir fd))"

text \<open>
  The loop body: \<^verbatim>\<open>file_id = os.path.splitext(fname)[0]\<close>, then the file is read
  and \<^verbatim>\<open>{"id": file_id, "prompt_original": prompt}\<close> appended; a file that cannot
  be read is reported and appends nothing.
\<close>

fun read_prompts :: "folder \<Rightarrow> string list \<Rightarrow> (string \<times> string) list" where
  "read_prompts fd [] = []"
| "read_prompts fd (fname # fnames) =
     (case read_text fd fname of
        Some content \<Rightarrow> (splitext_root fname, strip content) # read_prompts fd fnames
      | None \<Rightarrow> read_prompts fd fnames)"

text \<open>
  \<^verbatim>\<open>df = pd.DataFrame(data)\<close>; \<^verbatim>\<open>df["id"] = df["id"].astype(str).str.extract(r"(\d+)").astype(int)\<close>.
  An empty \<^verbatim>\<open>data\<close> gives a frame without columns, and \<^verbatim>\<open>df["id"]\<close> raises
  \<^verbatim>\<open>KeyError\<close>.
\<close>

definition id_frame :: "folder \<Rightarrow> py_error + prompt_row list" where
  "id_frame fd =
     (let data = read_prompts fd (txt_files fd) in
      if data = [] then Inl KeyError
      else case astype_int_col (map (str_extract_digits \<circ> fst) data) of
             Inl e \<Rightarrow> Inl e
           | Inr ids \<Rightarrow> Inr (map (\<lambda>(i, d). \<lparr>row_id = i, prompt_original = snd d\<rparr>) (zip ids data)))"

text \<open>
  \<^verbatim>\<open>df = df.sort_values(by="id")\<close>, written to \<^verbatim>\<open>output_csv\<close>: the result is the
  exception that ended the run, or the rows of that file. The library does not fix the
  order of rows with equal ids; the model sorts stably.
\<close>

definition consolidate :: "folder \<Rightarrow> py_error + prompt_row list" where
  "consolidate fd =
     (case id_frame fd of Inl e \<Rightarrow> Inl e | Inr df \<Rightarrow> Inr (sort_key row_id df))"


section \<open>What the captioning scripts share\<close>

text \<open>
  A \<^verbatim>\<open>for\<close> loop whose body may \<^verbatim>\<open>continue\<close> (or fall through), \<^verbatim>\<open>break\<close>,
  or raise an exception that nothing catches.
\<close>

datatype ctl = Next | Break | Raise py_error

fun for_each :: "('a \<Rightarrow> 's \<Rightarrow> ctl \<times> 's) \<Rightarrow> 'a list \<Rightarrow> 's \<Rightarrow> py_error option \<times> 's" where
  "for_each body [] s = (None, s)"
| "for_each body (x # xs) s =
     (case body x s of
        (Next, s') \<Rightarrow> for_each body xs s'
      | (Break, s') \<Rightarrow> (None, s')
      | (Raise e, s') \<Rightarrow> (Some e, s'))"

text \<open>
  The rows of the data frames and CSV files: \<^verbatim>\<open>id, prompt, image_filename, caption\<close>.
  The scripts put different things into the columns (the id is a file name, a generated
  name or a number; a caption may be missing), so the column types are parameters.
\<close>

record ('i, 'f, 'c) caption_row =
  cap_id :: 'i
  prompt :: string
  image_filename :: 'f
  caption :: 'c

text \<open>
  The remote service: what one \<^verbatim>\<open>chat.completions.create\<close> call ends in. A reply
  whose content is missing makes \<^verbatim>\<open>.strip()\<close> raise inside the same \<^verbatim>\<open>try\<close>, so
  it is an \<open>ApiError\<close>. The service is a sequence of such results, the \<open>n\<close>-th one
  answering the \<open>n\<close>-th request of the run.
\<close>

datatype api_result = Content string | RateLimited | ApiError

text \<open>The loop variables every batch driver has, and what it does to the outside.\<close>

record 'r batch =
  records :: "'r list"

record 'r api_batch = "'r batch" +
  requested :: "string list"   \<comment> \<open>the image of each captioning request issued, in order\<close>
  slept :: "real list"         \<comment> \<open>the arguments of \<^verbatim>\<open>time.sleep\<close>, in order\<close>

record 'r counted_batch = "'r api_batch" +
  fail_count :: nat

text \<open>\<^verbatim>\<open>if not b64_image\<close>: \<^verbatim>\<open>None\<close> and the empty string are false.\<close>

definition falsy :: "string option \<Rightarrow> bool" where
  "falsy v = (v = None \<or> v = Some [])"

text \<open>
  \<^verbatim>\<open>encode_image\<close>, the same in the three captioning scripts. The body of its
  \<^verbatim>\<open>try\<close> (open, convert to RGB, save as PNG, base64) is the image library's and is
  a parameter: for a path it gives the text or the exception raised.

  \<^verbatim>\<open>
  def encode_image(image_path):
      try:
          with Image.open(image_path) as img:
              ...
              return base64.b64encode(buffered.getvalue()).decode("utf-8")
      except Exception:
          return None
  \<close>
\<close>

definition encode_image :: "(string \<Rightarrow> py_error + string) \<Rightarrow> string \<Rightarrow> string option" where
  "encode_image png_base64 image_path =
     (case png_base64 image_path of Inr b64 \<Rightarrow> Some b64 | Inl e \<Rightarrow> None)"


section \<open>The metadata-driven captioner\<close>

text \<open>
  \<^verbatim>\<open>civitai_image_captioning.py\<close>, \<^verbatim>\<open>generate_captions\<close>. \<^verbatim>\<open>TARGET_DIR\<close> is
  the empty string, so \<^verbatim>\<open>os.path.join(TARGET_DIR, image_file)\<close> is \<^verbatim>\<open>image_file\<close>.
\<close>

record civitai_env =
  png_base64 :: "string \<Rightarrow> py_error + string"
  api :: "nat \<Rightarrow> api_result"

record 'r gen_state = "'r counted_batch" +
  bad_files :: "string set"

type_synonym civitai_in = "(string, string, unit) caption_row"
type_synonym civitai_out = "(string, string, string option) caption_row"

definition max_failures :: nat where
  "max_failures = 10"

definition with_caption :: "('i, 'f, 'c) caption_row \<Rightarrow> 'f2 \<Rightarrow> 'd \<Rightarrow> ('i, 'f2, 'd) caption_row" where
  "with_caption row f c = \<lparr>cap_id = cap_id row, prompt = prompt row, image_filename = f, caption = c\<rparr>"

text \<open>
  Both failure branches of the loop body do the same:
  \<^verbatim>\<open>
  records.append([row["id"], row["prompt"], image_file, None])
  bad_files.add(image_file)
  fail_count += 1
  if fail_count >= max_failures:
      break
  \<close>
\<close>

definition gen_fail :: "civitai_in \<Rightarrow> civitai_out gen_state \<Rightarrow> ctl \<times> civitai_out gen_state" where
  "gen_fail row s =
     (let s' = s\<lparr>records := records s @ [with_caption row (image_filename row) None],
                 bad_files := insert (image_filename row) (bad_files s),
                 fail_count := fail_count s + 1\<rparr>
      in (if fail_count s' \<ge> max_failures then Break else Next, s'))"

text \<open>
  The body of the loop. After a caption: \<^verbatim>\<open>time.sleep(16)\<close>. On
  \<^verbatim>\<open>RateLimitError\<close>: \<^verbatim>\<open>time.sleep(5)\<close> and \<^verbatim>\<open>continue\<close>.
\<close>

definition gen_body :: "civitai_env \<Rightarrow> civitai_in \<Rightarrow> civitai_out gen_state \<Rightarrow> ctl \<times> civitai_out gen_state" where
  "gen_body env row s =
     (let image_file = image_filename row;
          b64_image = encode_image (png_base64 env) image_file
      in if falsy b64_image then gen_fail row s
         else let s1 = s\<lparr>requested := requested s @ [image_file]\<rparr> in
           case api env (length (requested s)) of
             Content c \<Rightarrow>
               (Next, s1\<lparr>records := records s1 @ [with_caption row image_file (Some (strip c))],
                         slept := slept s1 @ [16]\<rparr>)
           | RateLimited \<Rightarrow> (Next, s1\<lparr>slept := slept s1 @ [5]\<rparr>)
           | ApiError \<Rightarrow> gen_fail row s1)"

definition gen_init :: "civitai_out gen_state" where
  "gen_init = \<lparr>records = [], requested = [], slept = [], fail_count = 0, bad_files = {}\<rparr>"

definition gen_loop :: "civitai_env \<Rightarrow> civitai_in list \<Rightarrow> py_error option \<times> civitai_out gen_state" where
  "gen_loop env df = for_each (gen_body env) df gen_init"

text \<open>
  \<^verbatim>\<open>df_out = df_out[~df_out["image_filename"].isin(bad_files)]\<close>, written to
  \<^verbatim>\<open>FINAL_OUTPUT_CSV\<close>: the result is the exception that ended the run, or the rows
  of that file.
\<close>

definition generate_captions :: "civitai_env \<Rightarrow> civitai_in list \<Rightarrow> py_error + civitai_out list" where
  "generate_captions env df =
     (case gen_loop env df of
        (Some e, s) \<Rightarrow> Inl e
      | (None, s) \<Rightarrow> Inr (filter (\<lambda>r. image_filename r \<notin> bad_files s) (records s)))"


section \<open>The multi-model captioner\<close>

text \<open>\<^verbatim>\<open>caption_enhanced_images.py\<close>.\<close>

definition num_samples :: nat where
  "num_samples = 200"

definition save_interval :: nat where
  "save_interval = 50"

text \<open>
  \<^verbatim>\<open>
  def get_caption_from_api(b64_image, retries=3, delay=1.5):
      for attempt in range(retries):
          try:
              response = openai.chat.completions.create(...)
              return response.choices[0].message.content.strip()
          except Exception as e:
              time.sleep(delay * (attempt + 1))
      return ""
  \<close>
  The state is the number of requests issued so far and the sleeps so far.
\<close>

fun attempts :: "(nat \<Rightarrow> api_result) \<Rightarrow> real \<Rightarrow> nat list \<Rightarrow> nat \<times> real list \<Rightarrow> string \<times> nat \<times> real list" where
  "attempts service delay [] (n, zs) = ([], n, zs)"
| "attempts service delay (attempt # rest) (n, zs) =
     (case service n of
        Content c \<Rightarrow> (strip c, Suc n, zs)
      | RateLimited \<Rightarrow> attempts service delay rest (Suc n, zs @ [delay * real (attempt + 1)])
      | ApiError \<Rightarrow> attempts service delay rest (Suc n, zs @ [delay * real (attempt + 1)]))"

definition get_caption_from_api :: "(nat \<Rightarrow> api_result) \<Rightarrow> nat \<Rightarrow> real \<Rightarrow> nat \<times> real list \<Rightarrow> string \<times> nat \<times> real list" where
  "get_caption_from_api service retries delay w = attempts service delay [0..<retries] w"

text \<open>\<^verbatim>\<open>fname.replace(".png", "")\<close>: every occurrence goes, from left to right.\<close>

fun remove_png :: "string \<Rightarrow> string" where
  "remove_png [] = []"
| "remove_png (c # cs) =
     (if take 4 (c # cs) = ''.png'' then remove_png (drop 3 cs) else c # remove_png cs)"

text \<open>
  \<^verbatim>\<open>int(s)\<close> on a string: white space around it is dropped, one sign is allowed, and
  the rest is decimal digits, with single underscores allowed between digits; anything
  else raises \<^verbatim>\<open>ValueError\<close> (\<open>None\<close>).
\<close>

fun digit_groups :: "string \<Rightarrow> bool" where
  "digit_groups [] = False"
| "digit_groups [c] = is_digit c"
| "digit_groups (c # d # cs) =
     (is_digit c \<and> (if d = CHR ''_'' then digit_groups cs else digit_groups (d # cs)))"

definition py_int_unsigned :: "string \<Rightarrow> int option" where
  "py_int_unsigned s =
     (if digit_groups s then Some (int (dec_val (filter is_digit s))) else None)"

definition py_int :: "string \<Rightarrow> int option" where
  "py_int s =
     (case strip s of
        [] \<Rightarrow> None
      | c # cs \<Rightarrow>
          if c = CHR ''-'' then map_option uminus (py_int_unsigned cs)
          else if c = CHR ''+'' then py_int_unsigned cs
          else py_int_unsigned (c # cs))"

text \<open>
  A model folder is a \<^typ>\<open>folder\<close> (a file exists when \<^verbatim>\<open>os.listdir\<close> names it)
  together with the image library's answer for each image in it and the service.
\<close>

record model_folder = folder +
  image_base64 :: "string \<Rightarrow> py_error + string"
  service :: "nat \<Rightarrow> api_result"

type_synonym model_row = "(int, string, string) caption_row"

record 'r model_state = "'r api_batch" +
  checkpoint :: "'r list option"   \<comment> \<open>the rows of \<^verbatim>\<open>{model_name}_captions_temp.csv\<close>, if written\<close>

text \<open>
  \<^verbatim>\<open>png_files = sorted([f for f in os.listdir(folder_path) if f.endswith(".png")])[:num_samples]\<close>
\<close>

definition png_files :: "model_folder \<Rightarrow> string list" where
  "png_files fd = take num_samples (sort (filter (\<lambda>f. endswith f ''.png'') (listdir fd)))"

text \<open>
  The body of the loop of \<^verbatim>\<open>process_model_folder\<close>; \<open>len\<close> is
  \<^verbatim>\<open>len(png_files)\<close> and \<open>idx\<close> counts from 1. The four \<^verbatim>\<open>continue\<close>s come
  before the auto-save; \<^verbatim>\<open>int(img_id)\<close> is outside every \<^verbatim>\<open>try\<close>.
\<close>

definition model_body :: "model_folder \<Rightarrow> nat \<Rightarrow> nat \<times> string \<Rightarrow> model_row model_state \<Rightarrow> ctl \<times> model_row model_state" where
  "model_body fd len item s =
     (let idx = fst item; fname = snd item;
          img_id = remove_png fname;
          txt = img_id @ ''.txt''
      in if txt \<notin> set (listdir fd) then (Next, s)
         else case read_text fd txt of
           None \<Rightarrow> (Next, s)
         | Some content \<Rightarrow>
             let b64_image = encode_image (image_base64 fd) fname in
             if falsy b64_image then (Next, s)
             else
               case get_caption_from_api (service fd) 3 1.5 (length (requested s), slept s) of
                 (cap, n, zs) \<Rightarrow>
               let s1 = s\<lparr>requested := requested s @ replicate (n - length (requested s)) fname, slept := zs\<rparr>
               in if cap = [] then (Next, s1)
                  else case py_int img_id of
                    None \<Rightarrow> (Raise ValueError, s1)
                  | Some i \<Rightarrow>
                      let recs = records s1 @ [\<lparr>cap_id = i, prompt = strip content, image_filename = fname, caption = cap\<rparr>];
                          s2 = s1\<lparr>records := recs\<rparr>;
                          s3 = (if idx mod save_interval = 0 \<or> idx = len
                                then s2\<lparr>checkpoint := Some recs\<rparr> else s2)
                      in (Next, s3\<lparr>slept := slept s3 @ [1.5]\<rparr>))"

definition model_init :: "model_row model_state" where
  "model_init = \<lparr>records = [], requested = [], slept = [], checkpoint = None\<rparr>"

text \<open>
  The loop started in state \<open>s\<close> on the items that are left; the whole folder is
  \<open>process_items fd (png_files fd) model_init\<close> on all of them, and a run interrupted
  after \<open>k\<close> items is the same on the first \<open>k\<close>.
\<close>

definition enumerate1 :: "'a list \<Rightarrow> (nat \<times> 'a) list" where
  "enumerate1 xs = zip [1..<Suc (length xs)] xs"

definition process_items :: "model_folder \<Rightarrow> nat \<Rightarrow> (nat \<times> string) list \<Rightarrow> model_row model_state \<Rightarrow> py_error option \<times> model_row model_state" where
  "process_items fd len items s = for_each (model_body fd len) items s"

definition process_model_folder :: "model_folder \<Rightarrow> py_error option \<times> model_row model_state" where
  "process_model_folder fd =
     process_items fd (length (png_files fd)) (enumerate1 (png_files fd)) model_init"

text \<open>
  One round of the final loop: \<^verbatim>\<open>df_model.sort_values(by="id")\<close>, written to
  \<^verbatim>\<open>{model}_captions_sorted.csv\<close>. Without any record the frame has no column
  \<^verbatim>\<open>id\<close> and sorting raises \<^verbatim>\<open>KeyError\<close>.
\<close>

definition captions_sorted :: "model_folder \<Rightarrow> py_error + model_row list" where
  "captions_sorted fd =
     (case process_model_folder fd of
        (Some e, s) \<Rightarrow> Inl e
      | (None, s) \<Rightarrow> if records s = [] then Inl KeyError else Inr (sort_key cap_id (records s)))"



section \<open>The dataset-driven captioner\<close>

text \<open>
  \<^verbatim>\<open>hf_lexica_image_captioning.py\<close>. A row of a parquet shard, as far as
  \<^verbatim>\<open>extract_and_download\<close> looks at it: the columns \<^verbatim>\<open>text\<close>, \<^verbatim>\<open>prompt\<close>,
  \<^verbatim>\<open>image\<close> and \<^verbatim>\<open>url\<close> (\<open>None\<close> for a column that is missing or empty). An image
  reference is a dictionary with the key \<^verbatim>\<open>bytes\<close>, a dictionary with the key
  \<^verbatim>\<open>url\<close> (whose value may fail to be a string), a string, or something else that
  Python takes for true.
\<close>

datatype img_data = BytesDict "string option" | UrlDict "string option" | UrlStr string | Other

record dataset_row =
  text_col :: "string option"
  prompt_col :: "string option"
  image_col :: "img_data option"
  url_col :: "img_data option"

definition max_consecutive_fails :: nat where
  "max_consecutive_fails = 20"

definition max_api_failures :: nat where
  "max_api_failures = 10"

text \<open>\<^verbatim>\<open>row.get("text") or row.get("prompt")\<close> and \<^verbatim>\<open>row.get("image") or row.get("url")\<close>\<close>

definition str_or :: "string option \<Rightarrow> string option \<Rightarrow> string option" where
  "str_or a b = (if falsy a then b else a)"

definition falsy_img :: "img_data option \<Rightarrow> bool" where
  "falsy_img v = (v = None \<or> v = Some (UrlStr []))"

definition img_or :: "img_data option \<Rightarrow> img_data option \<Rightarrow> img_data option" where
  "img_or a b = (if falsy_img a then b else a)"

text \<open>\<^verbatim>\<open>f"img_{id_counter:07d}"\<close>: decimal, padded with zeros to seven digits.\<close>

definition digit_char :: "nat \<Rightarrow> char" where
  "digit_char d = char_of (48 + d)"

fun digits :: "nat \<Rightarrow> string" where
  "digits n = (if n < 10 then [digit_char n] else digits (n div 10) @ [digit_char (n mod 10)])"

definition img_id_of :: "nat \<Rightarrow> string" where
  "img_id_of n = ''img_'' @ replicate (7 - length (digits n)) CHR ''0'' @ digits n"

text \<open>\<^verbatim>\<open>img_url.split('.')[-1].split('?')[0][:4].lower()\<close>\<close>

definition lower_char :: "char \<Rightarrow> char" where
  "lower_char c =
     (let n = (of_char c :: nat) in if 65 \<le> n \<and> n \<le> 90 then char_of (n + 32) else c)"

definition url_ext :: "string \<Rightarrow> string" where
  "url_ext img_url =
     map lower_char
       (take 4 (takeWhile (\<lambda>c. c \<noteq> CHR ''?'') (rev (takeWhile (\<lambda>c. c \<noteq> CHR ''.'') (rev img_url)))))"

text \<open>
  The outside of the script: the answers to its HTTP requests, in the order in which it
  makes them (\<open>None\<close> when \<^verbatim>\<open>requests.get\<close> or \<^verbatim>\<open>raise_for_status\<close> raises),
  whether \<^verbatim>\<open>Image.verify\<close> accepts a file's bytes, and what the captioner of the
  second step needs. The image folder is a map from file names to bytes
  (\<^verbatim>\<open>os.path.join(image_folder, name)\<close> names the file \<open>name\<close> of that folder).
  Writing a file to the folder and removing it again are taken to succeed, and the
  columns of a row hold strings, dictionaries or nothing.
\<close>

record lexica_env = civitai_env +
  http_get :: "nat \<Rightarrow> string option"
  verify :: "string \<Rightarrow> bool"

type_synonym lexica_in = "(string, string, unit) caption_row"
type_synonym lexica_out = "(string, string option, string option) caption_row"

record 'r extract_state = "'r batch" +
  id_counter :: nat
  consecutive_fails :: nat
  disk :: "string \<rightharpoonup> string"
  fetched :: nat

text \<open>
  \<^verbatim>\<open>
  except Exception:
      consecutive_fails += 1
      if consecutive_fails >= max_consecutive_fails:
          break
  \<close>
\<close>

definition extract_except :: "lexica_in extract_state \<Rightarrow> ctl \<times> lexica_in extract_state" where
  "extract_except s =
     (let s' = s\<lparr>consecutive_fails := consecutive_fails s + 1\<rparr>
      in (if consecutive_fails s' \<ge> max_consecutive_fails then Break else Next, s'))"

text \<open>
  From \<^verbatim>\<open>if img_bytes:\<close> on. A file that is there already only moves the counter; a
  new file is written and verified, and removed again when the verification raises.
\<close>

definition extract_store :: "lexica_env \<Rightarrow> string \<Rightarrow> string \<Rightarrow> string option \<Rightarrow> lexica_in extract_state \<Rightarrow> ctl \<times> lexica_in extract_state" where
  "extract_store env prompt_text img_ext img_bytes s =
     (case img_bytes of
        None \<Rightarrow> (Next, s\<lparr>consecutive_fails := consecutive_fails s + 1\<rparr>)
      | Some bytes \<Rightarrow>
          if bytes = [] then (Next, s\<lparr>consecutive_fails := consecutive_fails s + 1\<rparr>)
          else
            let img_id = img_id_of (id_counter s);
                img_filename = img_id @ ''.'' @ img_ext
            in if img_filename \<in> dom (disk s) then (Next, s\<lparr>id_counter := id_counter s + 1\<rparr>)
               else if \<not> verify env bytes
               then (Next, s\<lparr>disk := ((disk s)(img_filename \<mapsto> bytes))(img_filename := None)\<rparr>)
               else (Next, s\<lparr>disk := (disk s)(img_filename \<mapsto> bytes),
                              records := records s @
                                [\<lparr>cap_id = img_id, prompt = prompt_text,
                                  image_filename = img_filename, caption = ()\<rparr>],
                              id_counter := id_counter s + 1,
                              consecutive_fails := 0\<rparr>))"

text \<open>The two branches that fetch a URL.\<close>

definition extract_download :: "lexica_env \<Rightarrow> string \<Rightarrow> string \<Rightarrow> lexica_in extract_state \<Rightarrow> ctl \<times> lexica_in extract_state" where
  "extract_download env prompt_text img_url s =
     (let img_ext = url_ext img_url
      in if img_ext \<notin> set [''jpg'', ''jpeg'', ''png'', ''webp''] then (Next, s)
         else let s1 = s\<lparr>fetched := fetched s + 1\<rparr> in
           case http_get env (fetched s) of
             None \<Rightarrow> extract_except s1
           | Some content \<Rightarrow> extract_store env prompt_text img_ext (Some content) s1)"

text \<open>The body of the loop over the rows of one shard.\<close>

definition extract_body :: "lexica_env \<Rightarrow> dataset_row \<Rightarrow> lexica_in extract_state \<Rightarrow> ctl \<times> lexica_in extract_state" where
  "extract_body env row s =
     (let prompt_opt = str_or (text_col row) (prompt_col row);
          img = img_or (image_col row) (url_col row)
      in if falsy prompt_opt \<or> falsy_img img then (Next, s)
         else case img of
           Some (BytesDict b) \<Rightarrow> extract_store env (the prompt_opt) ''png'' b s
         | Some (UrlDict (Some img_url)) \<Rightarrow> extract_download env (the prompt_opt) img_url s
         | Some (UrlDict None) \<Rightarrow> extract_store env (the prompt_opt) ''jpg'' None s
         | Some (UrlStr img_url) \<Rightarrow> extract_download env (the prompt_opt) img_url s
         | Some Other \<Rightarrow> (Next, s)
         | None \<Rightarrow> (Next, s))"

text \<open>
  The body of the loop over the shards: a shard that cannot be read (\<open>None\<close>) or is empty
  is skipped; after the rows of a shard, \<^verbatim>\<open>if consecutive_fails >= max_consecutive_fails: break\<close>.
\<close>

definition extract_file :: "lexica_env \<Rightarrow> dataset_row list option \<Rightarrow> lexica_in extract_state \<Rightarrow> ctl \<times> lexica_in extract_state" where
  "extract_file env file s =
     (case file of
        None \<Rightarrow> (Next, s)
      | Some rows \<Rightarrow>
          if rows = [] then (Next, s)
          else let s' = snd (for_each (extract_body env) rows s)
               in (if consecutive_fails s' \<ge> max_consecutive_fails then Break else Next, s'))"

definition extract_init :: "(string \<rightharpoonup> string) \<Rightarrow> lexica_in extract_state" where
  "extract_init image_folder =
     \<lparr>records = [], id_counter = 1, consecutive_fails = 0, disk = image_folder, fetched = 0\<rparr>"

definition extract_and_download :: "lexica_env \<Rightarrow> dataset_row list option list \<Rightarrow> (string \<rightharpoonup> string) \<Rightarrow> lexica_in extract_state" where
  "extract_and_download env parquet_files image_folder =
     snd (for_each (extract_file env) parquet_files (extract_init image_folder))"

text \<open>
  \<^verbatim>\<open>caption_images\<close>: the body of its loop. An image that cannot be encoded counts
  as a failure and the loop goes on; a caption sets the counter to zero; any exception
  of the request counts and is the only place where the counter is compared.
\<close>

definition cap_body :: "lexica_env \<Rightarrow> (string \<rightharpoonup> string) \<Rightarrow> lexica_in \<Rightarrow> lexica_out counted_batch \<Rightarrow> ctl \<times> lexica_out counted_batch" where
  "cap_body env image_folder row s =
     (let image_file = image_filename row
      in if image_file \<notin> dom image_folder then (Next, s)
         else if falsy (encode_image (png_base64 env) image_file)
         then (Next, s\<lparr>fail_count := fail_count s + 1\<rparr>)
         else let s1 = s\<lparr>requested := requested s @ [image_file]\<rparr> in
           case api env (length (requested s)) of
             Content c \<Rightarrow>
               (Next, s1\<lparr>records := records s1 @ [with_caption row (Some image_file) (Some (strip c))],
                         fail_count := 0\<rparr>)
           | _ \<Rightarrow>
               let s2 = s1\<lparr>fail_count := fail_count s1 + 1\<rparr>
               in (if fail_count s2 \<ge> max_api_failures then Break else Next, s2))"

definition cap_init :: "lexica_out counted_batch" where
  "cap_init = \<lparr>records = [], requested = [], slept = [], fail_count = 0\<rparr>"

text \<open>
  The rows of the output file as \<^verbatim>\<open>pd.read_csv\<close> gives them: an empty field is a
  missing value. \<open>None\<close> for the file itself: it does not exist.

  \<^verbatim>\<open>
  existing_captions = set(df_existing["image_filename"].dropna())
  df = df[~df["image_filename"].isin(existing_captions)]
  df_existing = df_existing.dropna(subset=["caption"])
  \<close>
\<close>

definition existing_captions :: "lexica_out list option \<Rightarrow> string list" where
  "existing_captions output_csv =
     (case output_csv of
        None \<Rightarrow> []
      | Some df_existing \<Rightarrow> map the (filter (\<lambda>v. v \<noteq> None) (map image_filename df_existing)))"

definition work_queue :: "lexica_in list \<Rightarrow> lexica_out list option \<Rightarrow> lexica_in list" where
  "work_queue df output_csv =
     (case output_csv of
        None \<Rightarrow> df
      | Some df_existing \<Rightarrow> filter (\<lambda>r. image_filename r \<notin> set (existing_captions output_csv)) df)"

definition kept_rows :: "lexica_out list option \<Rightarrow> lexica_out list" where
  "kept_rows output_csv =
     (case output_csv of
        None \<Rightarrow> []
      | Some df_existing \<Rightarrow> filter (\<lambda>r. caption r \<noteq> None) df_existing)"

text \<open>
  The result is the output file after the call and the final loop state. With an empty
  work queue the function returns before it writes.
\<close>

definition caption_images :: "lexica_env \<Rightarrow> (string \<rightharpoonup> string) \<Rightarrow> lexica_in list \<Rightarrow> lexica_out list option \<Rightarrow> lexica_out list option \<times> lexica_out counted_batch" where
  "caption_images env image_folder df output_csv =
     (let queue = work_queue df output_csv
      in if queue = [] then (output_csv, cap_init)
         else let s = snd (for_each (cap_body env image_folder) queue cap_init)
              in (Some (kept_rows output_csv @ records s), s))"

text \<open>
  The script's last lines: \<^verbatim>\<open>df = extract_and_download()\<close>, then
  \<^verbatim>\<open>caption_images(df)\<close> unless \<^verbatim>\<open>df.empty\<close>.
\<close>

definition lexica_main :: "lexica_env \<Rightarrow> dataset_row list option list \<Rightarrow> (string \<rightharpoonup> string) \<Rightarrow> lexica_out list option \<Rightarrow> lexica_out list option \<times> lexica_out counted_batch" where
  "lexica_main env parquet_files image_folder output_csv =
     (let x = extract_and_download env parquet_files image_folder
      in if records x = [] then (output_csv, cap_init)
         else caption_images env (disk x) (records x) output_csv)"


section \<open>Invariants and example inputs\<close>

text \<open>
  What holds of the metadata-driven captioner's records throughout the loop: a record
  without caption has its image among the bad files, and a record of an image that
  \<^verbatim>\<open>encode_image\<close> gives up on has no caption.
\<close>

definition gen_inv :: "civitai_env \<Rightarrow> civitai_out gen_state \<Rightarrow> bool" where
  "gen_inv env s =
     (\<forall>r \<in> set (records s).
        (caption r = None \<longrightarrow> image_filename r \<in> bad_files s) \<and>
        (encode_image (png_base64 env) (image_filename r) = None \<longrightarrow> caption r = None))"

text \<open>
  Example inputs for the metadata-driven captioner: an image library that cannot decode
  \<^verbatim>\<open>bad.jpg\<close>, a service that answers every request, and a service that answers
  the first request with a rate-limit error.
\<close>

definition example_row :: "string \<Rightarrow> civitai_in" where
  "example_row f = \<lparr>cap_id = f, prompt = ''a prompt'', image_filename = f, caption = ()\<rparr>"

definition example_env :: civitai_env where
  "example_env =
     \<lparr>png_base64 = (\<lambda>p. if p = ''bad.jpg'' then Inl OSError else Inr ''aGk=''),
      api = (\<lambda>n. Content '' a cat '')\<rparr>"

definition limited_env :: civitai_env where
  "limited_env =
     \<lparr>png_base64 = (\<lambda>p. Inr ''aGk=''),
      api = (\<lambda>n. if n = 0 then RateLimited else Content ''a cat'')\<rparr>"

text \<open>
  Example inputs for the dataset-driven captioner: the image library cannot decode
  \<^verbatim>\<open>bad.png\<close>, every download succeeds, \<^verbatim>\<open>Image.verify\<close> rejects the bytes
  \<^verbatim>\<open>junk\<close>, and the service is a parameter.
\<close>

definition lexica_env_of :: "(nat \<Rightarrow> api_result) \<Rightarrow> lexica_env" where
  "lexica_env_of a =
     \<lparr>png_base64 = (\<lambda>p. if p = ''bad.png'' then Inl OSError else Inr ''aGk=''),
      api = a,
      http_get = (\<lambda>n. Some ''bytes''),
      verify = (\<lambda>b. b \<noteq> ''junk'')\<rparr>"

text \<open>
  The spec's words for the identifier: the first maximal run of digits in a name. In
  front of the run there is no digit, the run is not empty, and what follows it, if
  anything, does not start with a digit.
\<close>

definition first_digit_run :: "string \<Rightarrow> string \<Rightarrow> bool" where
  "first_digit_run name run =
     (\<exists>pre post. name = pre @ run @ post \<and> (\<forall>c \<in> set pre. \<not> is_digit c) \<and>
        run \<noteq> [] \<and> (\<forall>c \<in> set run. is_digit c) \<and> (post = [] \<or> \<not> is_digit (hd post)))"

text \<open>
  Example folders for the consolidator: the three files of the spec's example, two
  names that denote the same number, and a name without a digit.
\<close>

definition spec_example_folder :: folder where
  "spec_example_folder =
     \<lparr>listdir = [''3.txt'', ''10.txt'', ''2.txt''],
      read_text = [''3.txt'' \<mapsto> ''a'', ''10.txt'' \<mapsto> ''b'', ''2.txt'' \<mapsto> ''c'']\<rparr>"

definition colliding_folder :: folder where
  "colliding_folder =
     \<lparr>listdir = [''1.txt'', ''01.txt''],
      read_text = [''1.txt'' \<mapsto> ''a'', ''01.txt'' \<mapsto> ''b'']\<rparr>"

definition digitless_folder :: folder where
  "digitless_folder =
     \<lparr>listdir = [''1.txt'', ''notes.txt''],
      read_text = [''1.txt'' \<mapsto> ''a'', ''notes.txt'' \<mapsto> ''b'']\<rparr>"

text \<open>
  An example folder of the multi-model captioner: two images with their prompts, every
  image decodable, every request answered.
\<close>

definition example_model_folder :: model_folder where
  "example_model_folder =
     \<lparr>listdir = [''2.png'', ''2.txt'', ''10.png'', ''10.txt''],
      read_text = [''2.txt'' \<mapsto> ''two'', ''10.txt'' \<mapsto> ''ten''],
      image_base64 = (\<lambda>p. Inr ''aGk=''),
      service = (\<lambda>n. Content ''a dog'')\<rparr>"

text \<open>
  A folder of the multi-model captioner whose last image has no prompt file.
\<close>

definition unsaved_folder :: model_folder where
  "unsaved_folder =
     \<lparr>listdir = [''1.png'', ''1.txt'', ''2.png''],
      read_text = [''1.txt'' \<mapsto> ''one''],
      image_base64 = (\<lambda>p. Inr ''aGk=''),
      service = (\<lambda>n. Content ''a dog'')\<rparr>"

text \<open>
  What holds of the download step throughout: no file that was in the image folder
  before the run is lost, every record names a file that the run has added to the
  folder, and no two records name the same file.
\<close>

definition extract_inv :: "(string \<rightharpoonup> string) \<Rightarrow> lexica_in extract_state \<Rightarrow> bool" where
  "extract_inv image_folder s =
     (dom image_folder \<subseteq> dom (disk s) \<and>
      image_filename ` set (records s) \<subseteq> dom (disk s) - dom image_folder \<and>
      distinct (map image_filename (records s)))"

text \<open>
  Example inputs for the dataset-driven pipeline: one shard with two rows that carry
  their image bytes, and a row of the output file (\<open>n\<close> is the last digit of its id).
\<close>

definition bytes_row :: "string \<Rightarrow> dataset_row" where
  "bytes_row b =
     \<lparr>text_col = Some ''a prompt'', prompt_col = None,
      image_col = Some (BytesDict (Some b)), url_col = None\<rparr>"

definition example_shards :: "dataset_row list option list" where
  "example_shards = [Some [bytes_row ''bytes1'', bytes_row ''bytes2'']]"

definition captioned_row :: "string \<Rightarrow> string option \<Rightarrow> lexica_out" where
  "captioned_row n c =
     \<lparr>cap_id = ''img_000000'' @ n, prompt = ''a prompt'',
      image_filename = Some (''img_000000'' @ n @ ''.png''), caption = c\<rparr>"

text \<open>
  Of the first \<open>n\<close> requests of a run, the number that the service answers with a
  caption.
\<close>

definition answered :: "(nat \<Rightarrow> api_result) \<Rightarrow> nat \<Rightarrow> nat" where
  "answered srv n =
     length (filter (\<lambda>i. case srv i of Content c \<Rightarrow> True | RateLimited \<Rightarrow> False | ApiError \<Rightarrow> False) [0..<n])"

text \<open>
  A row that refers to its image by a URL, and an outside in which no download
  succeeds.
\<close>

definition url_row :: "string \<Rightarrow> dataset_row" where
  "url_row u =
     \<lparr>text_col = Some ''a prompt'', prompt_col = None,
      image_col = None, url_col = Some (UrlStr u)\<rparr>"

definition offline_env :: lexica_env where
  "offline_env = (lexica_env_of (\<lambda>n. Content ''a cat''))\<lparr>http_get := (\<lambda>n. None)\<rparr>"


section \<open>Properties: loops\<close>

text \<open>
  A property that every step of the body preserves holds when the loop is left, and a
  loop whose body raises nothing raises nothing.
\<close>

lemma for_each_invariant:
  assumes "P s"
    and "\<And>x t. x \<in> set xs \<Longrightarrow> P t \<Longrightarrow> P (snd (body x t))"
  shows "P (snd (for_each body xs s))"
  using assms
proof (induction xs arbitrary: s)
  case Nil
  then show ?case by simp
next
  case (Cons x xs)
  have step: "P (snd (body x s))" using Cons.prems by simp
  have rest: "\<And>y t. y \<in> set xs \<Longrightarrow> P t \<Longrightarrow> P (snd (body y t))" using Cons.prems(2) by simp
  show ?case
  proof (cases "body x s")
    case (Pair c s')
    with step have s': "P s'" by simp
    show ?thesis
      using Pair s' Cons.IH [OF s' rest] by (cases c) simp_all
  qed
qed

lemma for_each_no_raise:
  assumes "\<And>x t e. x \<in> set xs \<Longrightarrow> fst (body x t) \<noteq> Raise e"
  shows "fst (for_each body xs s) = None"
  using assms
proof (induction xs arbitrary: s)
  case Nil
  then show ?case by simp
next
  case (Cons x xs)
  have rest: "\<And>y t e. y \<in> set xs \<Longrightarrow> fst (body y t) \<noteq> Raise e" using Cons.prems by simp
  show ?case
  proof (cases "body x s")
    case (Pair c s')
    have "\<And>e. c \<noteq> Raise e" using Cons.prems [of x s] Pair by simp
    then show ?thesis using Pair Cons.IH [OF rest] by (cases c) auto
  qed
qed


section \<open>Properties: the retry helper of the multi-model captioner\<close>

text \<open>
  Attempts that all fail leave the empty string, one request and one sleep each; the
  first attempt that is answered ends the loop.
\<close>

lemma attempts_all_fail:
  "(\<And>j c. j < length as \<Longrightarrow> srv (n + j) \<noteq> Content c) \<Longrightarrow>
   attempts srv d as (n, zs) = ([], n + length as, zs @ map (\<lambda>a. d * real (a + 1)) as)"
proof (induction as arbitrary: n zs)
  case Nil
  then show ?case by simp
next
  case (Cons a as)
  have h0: "\<And>c. srv n \<noteq> Content c" using Cons.prems [of 0] by simp
  have hs: "\<And>j c. j < length as \<Longrightarrow> srv (Suc n + j) \<noteq> Content c"
    using Cons.prems [of "Suc _"] by simp
  show ?case
    using h0 Cons.IH [OF hs] by (cases "srv n") auto
qed

lemma attempts_first_ok:
  "(\<And>j c. j < length pre \<Longrightarrow> srv (n + j) \<noteq> Content c) \<Longrightarrow>
   srv (n + length pre) = Content c \<Longrightarrow>
   attempts srv d (pre @ a # post) (n, zs) =
     (strip c, n + length pre + 1, zs @ map (\<lambda>a. d * real (a + 1)) pre)"
proof (induction pre arbitrary: n zs)
  case Nil
  then show ?case by simp
next
  case (Cons p pre)
  have h0: "\<And>c. srv n \<noteq> Content c" using Cons.prems(1) [of 0] by simp
  have hs: "\<And>j c. j < length pre \<Longrightarrow> srv (Suc n + j) \<noteq> Content c"
    using Cons.prems(1) [of "Suc _"] by simp
  have ok: "srv (Suc n + length pre) = Content c" using Cons.prems(2) by simp
  show ?case
    using h0 Cons.IH [OF hs ok] by (cases "srv n") auto
qed

text \<open>
  Claim C9. \<^verbatim>\<open>get_caption_from_api\<close>, called with its defaults (3 attempts, base
  delay 1.5 s), issues at most three requests. When all three fail it returns the empty
  string, having slept 1.5, 3 and 4.5 seconds after the first, second and third failure
  (the base delay times the attempt number); when the attempt number \<open>k + 1\<close> is the
  first one answered it returns that caption, stripped, after \<open>k + 1\<close> requests and
  the first \<open>k\<close> of those sleeps. Every exception of a request is caught: the helper
  always returns a value.
\<close>

theorem get_caption_from_api_retries:
  "((\<forall>j<3. \<forall>c. srv (n + j) \<noteq> Content c) \<longrightarrow>
      get_caption_from_api srv 3 1.5 (n, zs) = ([], n + 3, zs @ [1.5 * 1, 1.5 * 2, 1.5 * 3])) \<and>
   (\<forall>k<3. (\<forall>j<k. \<forall>c. srv (n + j) \<noteq> Content c) \<longrightarrow> srv (n + k) = Content c \<longrightarrow>
      get_caption_from_api srv 3 1.5 (n, zs) =
        (strip c, n + k + 1, zs @ map (\<lambda>a. 1.5 * real (a + 1)) [0..<k]))"
proof (intro conjI impI allI)
  assume a: "\<forall>j<3. \<forall>c. srv (n + j) \<noteq> Content c"
  have "attempts srv 1.5 [0..<3] (n, zs) =
        ([], n + length [0..<3::nat], zs @ map (\<lambda>a. 1.5 * real (a + 1)) [0..<3])"
    by (rule attempts_all_fail) (use a in simp)
  then show "get_caption_from_api srv 3 1.5 (n, zs) = ([], n + 3, zs @ [1.5 * 1, 1.5 * 2, 1.5 * 3])"
    by (simp add: get_caption_from_api_def upt_rec numeral_3_eq_3)
next
  fix k
  assume k: "k < 3" and a: "\<forall>j<k. \<forall>c. srv (n + j) \<noteq> Content c"
    and ok: "srv (n + k) = Content c"
  have split: "[0..<3] = [0..<k] @ k # [Suc k..<3]"
  proof -
    from k have "k = 0 \<or> k = 1 \<or> k = 2" by arith
    then show ?thesis by (auto simp: upt_rec numeral_3_eq_3 numeral_2_eq_2)
  qed
  have "attempts srv 1.5 ([0..<k] @ k # [Suc k..<3]) (n, zs) =
        (strip c, n + length [0..<k] + 1, zs @ map (\<lambda>a. 1.5 * real (a + 1)) [0..<k])"
    by (rule attempts_first_ok) (use a ok in simp_all)
  then show "get_caption_from_api srv 3 1.5 (n, zs) =
        (strip c, n + k + 1, zs @ map (\<lambda>a. 1.5 * real (a + 1)) [0..<k])"
    by (simp add: get_caption_from_api_def split [symmetric])
qed

theorem get_caption_from_api_retries_witness:
  "get_caption_from_api (\<lambda>i::nat. ApiError) 3 1.5 (0, []) = ([], 3, [1.5, 3, 4.5]) \<and>
   get_caption_from_api (\<lambda>i::nat. if i = 0 then RateLimited else Content '' a cat '') 3 1.5 (0, []) =
     (''a cat'', 2, [1.5])"
proof -
  have s: "strip '' a cat '' = ''a cat''" by code_simp
  have a: "get_caption_from_api (\<lambda>i::nat. ApiError) 3 1.5 (0, []) = ([], 3, [1.5, 3, 4.5])"
    using get_caption_from_api_retries [of "\<lambda>i::nat. ApiError" 0 "[]" "[]", THEN conjunct1]
    by simp
  have b: "get_caption_from_api (\<lambda>i::nat. if i = 0 then RateLimited else Content '' a cat '') 3 1.5 (0, []) =
     (''a cat'', 2, [1.5])"
    using get_caption_from_api_retries [of "\<lambda>i::nat. if i = 0 then RateLimited else Content '' a cat ''" 0 "[]" "'' a cat ''",
        THEN conjunct2, rule_format, of 1]
    by (simp add: s)
  show ?thesis using a b by simp
qed


section \<open>Properties: the metadata-driven captioner\<close>

lemma gen_fail_simps:
  "snd (gen_fail row s) =
     s\<lparr>records := records s @ [with_caption row (image_filename row) None],
       bad_files := insert (image_filename row) (bad_files s),
       fail_count := fail_count s + 1\<rparr>"
  "fst (gen_fail row s) = (if fail_count s + 1 \<ge> max_failures then Break else Next)"
  by (simp_all add: gen_fail_def Let_def)

lemma gen_body_no_raise: "fst (gen_body env row s) \<noteq> Raise e"
  by (simp add: gen_body_def Let_def gen_fail_simps split: api_result.splits)

lemma gen_inv_body: "gen_inv env s \<Longrightarrow> gen_inv env (snd (gen_body env row s))"
  by (auto simp: gen_inv_def gen_body_def Let_def gen_fail_simps with_caption_def falsy_def
      split: api_result.splits)

lemma gen_inv_loop: "gen_inv env (snd (gen_loop env df))"
  unfolding gen_loop_def
  by (rule for_each_invariant) (simp_all add: gen_inv_def gen_init_def gen_inv_body [unfolded gen_inv_def])


lemma gen_count_body:
  "fail_count s = length (filter (\<lambda>r. caption r = None) (records s)) \<Longrightarrow>
   fail_count (snd (gen_body env row s)) =
     length (filter (\<lambda>r. caption r = None) (records (snd (gen_body env row s))))"
  by (auto simp: gen_body_def Let_def gen_fail_simps with_caption_def split: api_result.splits)

lemma gen_count_loop:
  "fail_count (snd (gen_loop env df)) =
     length (filter (\<lambda>r. caption r = None) (records (snd (gen_loop env df))))"
  unfolding gen_loop_def
  by (rule for_each_invariant) (simp_all add: gen_init_def gen_count_body)

lemma gen_body_ctl:
  "fail_count s < max_failures \<Longrightarrow>
   (fst (gen_body env row s) = Next \<and> fail_count (snd (gen_body env row s)) < max_failures) \<or>
   (fst (gen_body env row s) = Break \<and> fail_count (snd (gen_body env row s)) = max_failures)"
  by (auto simp: gen_body_def Let_def gen_fail_simps split: api_result.splits)

lemma gen_for_each_bound:
  "fail_count s < max_failures \<Longrightarrow>
   fail_count (snd (for_each (gen_body env) xs s)) \<le> max_failures"
proof (induction xs arbitrary: s)
  case Nil
  then show ?case by simp
next
  case (Cons x xs)
  show ?case
  proof (cases "gen_body env x s")
    case (Pair c s')
    then show ?thesis
      using gen_body_ctl [OF Cons.prems, of env x] Cons.IH [of s'] by (cases c) auto
  qed
qed

lemma gen_for_each_running:
  "fail_count s < max_failures \<Longrightarrow>
   fail_count (snd (for_each (gen_body env) xs s)) < max_failures \<Longrightarrow>
   for_each (gen_body env) (xs @ ys) s =
     for_each (gen_body env) ys (snd (for_each (gen_body env) xs s))"
proof (induction xs arbitrary: s)
  case Nil
  then show ?case by simp
next
  case (Cons x xs)
  show ?case
  proof (cases "gen_body env x s")
    case (Pair c s')
    then show ?thesis
      using gen_body_ctl [OF Cons.prems(1), of env x] Cons.IH [of s'] Cons.prems(2)
      by (cases c) auto
  qed
qed

lemma gen_for_each_stopped:
  "fail_count s < max_failures \<Longrightarrow>
   fail_count (snd (for_each (gen_body env) xs s)) \<ge> max_failures \<Longrightarrow>
   for_each (gen_body env) (xs @ ys) s = for_each (gen_body env) xs s"
proof (induction xs arbitrary: s)
  case Nil
  then show ?case by simp
next
  case (Cons x xs)
  show ?case
  proof (cases "gen_body env x s")
    case (Pair c s')
    then show ?thesis
      using gen_body_ctl [OF Cons.prems(1), of env x] Cons.IH [of s'] Cons.prems(2)
      by (cases c) auto
  qed
qed

text \<open>The example run: one image that cannot be decoded, one that is captioned.\<close>

lemma strip_a_cat: "strip '' a cat '' = ''a cat''" by code_simp
lemma strip_a_cat2: "strip ''a cat'' = ''a cat''" by code_simp

lemma example_run:
  "gen_loop example_env [example_row ''bad.jpg'', example_row ''ok.jpg''] =
     (None, \<lparr>records = [with_caption (example_row ''bad.jpg'') ''bad.jpg'' None,
                          with_caption (example_row ''ok.jpg'') ''ok.jpg'' (Some ''a cat'')],
             requested = [''ok.jpg''], slept = [16], fail_count = 1, bad_files = {''bad.jpg''}\<rparr>)"
  by (simp add: gen_loop_def gen_body_def gen_fail_def gen_init_def example_env_def example_row_def
      encode_image_def falsy_def max_failures_def Let_def strip_a_cat)

text \<open>
  Claim C4. When the image library raises on a file, \<^verbatim>\<open>encode_image\<close> returns
  \<open>None\<close>; every record the batch keeps for that file has no caption; and the batch
  ends without an exception, writing a CSV in which no row names the file.
\<close>

theorem undecodable_image_excluded:
  assumes "png_base64 env f = Inl e"
  shows "encode_image (png_base64 env) f = None \<and>
         (\<forall>r \<in> set (records (snd (gen_loop env df))). image_filename r = f \<longrightarrow> caption r = None) \<and>
         (\<exists>rows. generate_captions env df = Inr rows \<and> f \<notin> image_filename ` set rows)"
proof -
  have enc: "encode_image (png_base64 env) f = None"
    using assms by (simp add: encode_image_def)
  have inv: "gen_inv env (snd (gen_loop env df))" by (rule gen_inv_loop)
  have none: "\<forall>r \<in> set (records (snd (gen_loop env df))). image_filename r = f \<longrightarrow> caption r = None"
    using inv enc by (auto simp: gen_inv_def)
  have bad: "\<forall>r \<in> set (records (snd (gen_loop env df))).
               image_filename r = f \<longrightarrow> f \<in> bad_files (snd (gen_loop env df))"
    using inv none by (auto simp: gen_inv_def)
  have nr: "fst (gen_loop env df) = None"
    unfolding gen_loop_def by (rule for_each_no_raise) (rule gen_body_no_raise)
  obtain s where s: "gen_loop env df = (None, s)"
    using nr by (cases "gen_loop env df") simp
  have out: "generate_captions env df = Inr (filter (\<lambda>r. image_filename r \<notin> bad_files s) (records s))"
    by (simp add: generate_captions_def s)
  have "f \<notin> image_filename ` set (filter (\<lambda>r. image_filename r \<notin> bad_files s) (records s))"
    using bad s by auto
  with out enc none show ?thesis by blast
qed

theorem undecodable_image_excluded_witness:
  "png_base64 example_env ''bad.jpg'' = Inl OSError \<and>
   encode_image (png_base64 example_env) ''bad.jpg'' = None \<and>
   generate_captions example_env [example_row ''bad.jpg'', example_row ''ok.jpg''] =
     Inr [with_caption (example_row ''ok.jpg'') ''ok.jpg'' (Some ''a cat'')] \<and>
   (\<exists>rows. generate_captions example_env [example_row ''bad.jpg'', example_row ''ok.jpg''] = Inr rows \<and>
      ''bad.jpg'' \<notin> image_filename ` set rows)"
proof -
  have h: "png_base64 example_env ''bad.jpg'' = Inl OSError" by (simp add: example_env_def)
  have out: "generate_captions example_env [example_row ''bad.jpg'', example_row ''ok.jpg''] =
     Inr [with_caption (example_row ''ok.jpg'') ''ok.jpg'' (Some ''a cat'')]"
    by (simp add: generate_captions_def example_run with_caption_def)
  show ?thesis
    using h out undecodable_image_excluded [OF h, of "[example_row ''bad.jpg'', example_row ''ok.jpg'']"]
    by simp
qed

text \<open>
  Claim C8, as the code has it. When the service answers a request with a rate-limit
  error, the metadata-driven captioner sleeps 5 seconds and goes on with the next image
  of the frame: nothing is recorded for the image, it is not marked bad, the failure
  counter stays, and the image is not requested again. (The sleep after a caption is
  16 seconds.) In the dataset-driven captioner a rate-limit error is handled exactly
  as any other exception of the request.
\<close>

theorem rate_limit_handling:
  "(\<not> falsy (encode_image (png_base64 env) (image_filename row)) \<and>
      api env (length (requested s)) = RateLimited \<longrightarrow>
      for_each (gen_body env) (row # rest) s =
        for_each (gen_body env) rest
          (s\<lparr>requested := requested s @ [image_filename row], slept := slept s @ [5]\<rparr>)) \<and>
   (\<not> falsy (encode_image (png_base64 env) (image_filename row)) \<and>
      api env (length (requested s)) = Content c \<longrightarrow>
      for_each (gen_body env) (row # rest) s =
        for_each (gen_body env) rest
          (s\<lparr>requested := requested s @ [image_filename row],
             records := records s @ [with_caption row (image_filename row) (Some (strip c))],
             slept := slept s @ [16]\<rparr>)) \<and>
   cap_body (lenv\<lparr>api := (api lenv)(length (requested t) := RateLimited)\<rparr>) image_folder lrow t =
   cap_body (lenv\<lparr>api := (api lenv)(length (requested t) := ApiError)\<rparr>) image_folder lrow t"
  by (simp add: gen_body_def cap_body_def Let_def)

theorem rate_limit_handling_witness:
  "for_each (gen_body limited_env) [example_row ''a.jpg'', example_row ''b.jpg''] gen_init =
     for_each (gen_body limited_env) [example_row ''b.jpg'']
       (gen_init\<lparr>requested := [''a.jpg''], slept := [5]\<rparr>) \<and>
   for_each (gen_body limited_env) [example_row ''b.jpg''] (gen_init\<lparr>requested := [''a.jpg''], slept := [5]\<rparr>) =
     for_each (gen_body limited_env) []
       (gen_init\<lparr>requested := [''a.jpg'', ''b.jpg''],
          records := [with_caption (example_row ''b.jpg'') ''b.jpg'' (Some ''a cat'')],
          slept := [5, 16]\<rparr>)"
proof -
  have a: "\<not> falsy (encode_image (png_base64 limited_env) (image_filename (example_row ''a.jpg'')))"
    by (simp add: falsy_def encode_image_def limited_env_def)
  have b: "\<not> falsy (encode_image (png_base64 limited_env) (image_filename (example_row ''b.jpg'')))"
    by (simp add: falsy_def encode_image_def limited_env_def)
  have r0: "api limited_env (length (requested gen_init)) = RateLimited"
    by (simp add: limited_env_def gen_init_def)
  have r1: "api limited_env (length (requested (gen_init\<lparr>requested := [''a.jpg''], slept := [5]\<rparr>))) = Content ''a cat''"
    by (simp add: limited_env_def gen_init_def)
  have p1: "for_each (gen_body limited_env) [example_row ''a.jpg'', example_row ''b.jpg''] gen_init =
     for_each (gen_body limited_env) [example_row ''b.jpg'']
       (gen_init\<lparr>requested := [''a.jpg''], slept := [5]\<rparr>)"
    using rate_limit_handling [of limited_env "example_row ''a.jpg''" gen_init "[example_row ''b.jpg'']",
        THEN conjunct1] a r0
    by (simp add: gen_init_def example_row_def)
  have p2: "for_each (gen_body limited_env) [example_row ''b.jpg''] (gen_init\<lparr>requested := [''a.jpg''], slept := [5]\<rparr>) =
     for_each (gen_body limited_env) []
       (gen_init\<lparr>requested := [''a.jpg'', ''b.jpg''],
          records := [with_caption (example_row ''b.jpg'') ''b.jpg'' (Some ''a cat'')],
          slept := [5, 16]\<rparr>)"
    using rate_limit_handling [of limited_env "example_row ''b.jpg''"
          "gen_init\<lparr>requested := [''a.jpg''], slept := [5]\<rparr>" "[]" "''a cat''",
        THEN conjunct2, THEN conjunct1] b r1
    by (simp add: gen_init_def example_row_def strip_a_cat2)
  show ?thesis using p1 p2 by simp
qed

text \<open>
  The claim as stated fails: the image whose request is rate-limited is requested once
  and never again, although the service would have answered the next request, and the
  pause is 5 seconds; the run ends with an empty CSV.
\<close>

theorem rate_limited_image_not_retried:
  "api limited_env 1 = Content ''a cat'' \<and>
   gen_loop limited_env [example_row ''a.jpg''] =
     (None, \<lparr>records = [], requested = [''a.jpg''], slept = [5], fail_count = 0, bad_files = {}\<rparr>) \<and>
   generate_captions limited_env [example_row ''a.jpg''] = Inr []"
  by (simp add: generate_captions_def gen_loop_def gen_body_def gen_init_def limited_env_def example_row_def
      encode_image_def falsy_def Let_def)

section \<open>Properties: the failure counters\<close>

text \<open>The three ways through the body of the dataset-driven captioner's loop that matter for its counter.\<close>

lemma cap_body_break:
  "(fst (cap_body lenv dsk lrow t) = Break) =
     (image_filename lrow \<in> dom dsk \<and>
      \<not> falsy (encode_image (png_base64 lenv) (image_filename lrow)) \<and>
      (\<forall>c. api lenv (length (requested t)) \<noteq> Content c) \<and>
      max_api_failures \<le> fail_count t + 1)"
  by (auto simp: cap_body_def Let_def split: api_result.splits)

lemma cap_body_success:
  "image_filename lrow \<in> dom dsk \<Longrightarrow>
   \<not> falsy (encode_image (png_base64 lenv) (image_filename lrow)) \<Longrightarrow>
   api lenv (length (requested t)) = Content c \<Longrightarrow>
   cap_body lenv dsk lrow t =
     (Next, t\<lparr>requested := requested t @ [image_filename lrow],
              records := records t @ [with_caption lrow (Some (image_filename lrow)) (Some (strip c))],
              fail_count := 0\<rparr>)"
  by (simp add: cap_body_def Let_def)

lemma cap_body_undecodable:
  "image_filename lrow \<in> dom dsk \<Longrightarrow>
   falsy (encode_image (png_base64 lenv) (image_filename lrow)) \<Longrightarrow>
   cap_body lenv dsk lrow t = (Next, t\<lparr>fail_count := fail_count t + 1\<rparr>)"
  by (simp add: cap_body_def Let_def)

text \<open>A run of images that cannot be decoded, in either captioner.\<close>

lemma gen_fail_run:
  "n + fail_count s \<le> max_failures \<Longrightarrow>
   encode_image (png_base64 env) (image_filename row) = None \<Longrightarrow>
   fail_count (snd (for_each (gen_body env) (replicate n row) s)) = fail_count s + n"
proof (induction n arbitrary: s)
  case 0
  then show ?case by simp
next
  case (Suc n)
  have b: "gen_body env row s = gen_fail row s"
    using Suc.prems(2) by (simp add: gen_body_def falsy_def)
  obtain c s' where gf: "gen_fail row s = (c, s')" by (cases "gen_fail row s")
  have fc: "fail_count s' = fail_count s + 1"
    using gen_fail_simps(1) [of row s] gf by simp
  have cd: "c = (if fail_count s + 1 \<ge> max_failures then Break else Next)"
    using gen_fail_simps(2) [of row s] gf by simp
  show ?case
  proof (cases "fail_count s + 1 \<ge> max_failures")
    case True
    then have "n = 0" using Suc.prems(1) by simp
    then show ?thesis using b gf fc cd True by simp
  next
    case False
    have "n + fail_count s' \<le> max_failures" using fc Suc.prems(1) by simp
    from Suc.IH [OF this Suc.prems(2)] show ?thesis using b gf fc cd False by simp
  qed
qed

lemma bad_none: "encode_image (png_base64 example_env) (image_filename (example_row ''bad.jpg'')) = None"
  by (simp add: encode_image_def example_env_def example_row_def)

lemma ten_failures:
  "fail_count (snd (gen_loop example_env (replicate 10 (example_row ''bad.jpg'')))) = 10"
  using gen_fail_run [of 10 gen_init example_env "example_row ''bad.jpg''"] bad_none
  by (simp add: gen_loop_def gen_init_def max_failures_def)

lemma example_run1:
  "gen_loop example_env [example_row ''bad.jpg''] =
     (None, \<lparr>records = [with_caption (example_row ''bad.jpg'') ''bad.jpg'' None],
             requested = [], slept = [], fail_count = 1, bad_files = {''bad.jpg''}\<rparr>)"
  by (simp add: gen_loop_def gen_body_def gen_fail_def gen_init_def example_env_def example_row_def
      encode_image_def falsy_def max_failures_def Let_def)

lemma cap_undecodable_run:
  "image_filename row \<in> dom dsk \<Longrightarrow>
   falsy (encode_image (png_base64 lenv) (image_filename row)) \<Longrightarrow>
   for_each (cap_body lenv dsk) (replicate n row @ rest) t =
     for_each (cap_body lenv dsk) rest (t\<lparr>fail_count := fail_count t + n\<rparr>)"
proof (induction n arbitrary: t)
  case 0
  then show ?case by simp
next
  case (Suc n)
  from Suc.IH [OF Suc.prems, of "t\<lparr>fail_count := fail_count t + 1\<rparr>"]
  show ?case using cap_body_undecodable [OF Suc.prems, of t] by simp
qed

text \<open>
  Claim C1, as the code has it. In the metadata-driven captioner the failure counter is
  never reset. An image that cannot be decoded and a request that fails other than by
  a rate limit each record the item without caption, mark its file bad and add one to
  the counter, and the loop is left when that brings the counter to the threshold 10;
  a caption and a rate limit leave the counter as it is. So when the loop is left the
  counter is the number of records without caption, that is, of all failed items of the
  run; it never exceeds 10; once it is 10 no further item is processed, and below 10
  the loop goes on with the items that follow. In the caption loop of the dataset-driven
  captioner a captioned item sets the counter to zero; an image that cannot be decoded
  adds one without any test; a failed request adds one and leaves the loop when the
  counter has reached the threshold 10 or more, and the loop is left in no other way;
  an image file that is missing changes nothing.
\<close>

theorem failure_counters:
  "fail_count (snd (gen_loop env df)) =
     length (filter (\<lambda>r. caption r = None) (records (snd (gen_loop env df)))) \<and>
   fail_count (snd (gen_loop env df)) \<le> max_failures \<and> max_failures = 10 \<and>
   (fail_count (snd (gen_loop env df)) = max_failures \<longrightarrow>
      gen_loop env (df @ rest) = gen_loop env df) \<and>
   (fail_count (snd (gen_loop env df)) < max_failures \<longrightarrow>
      gen_loop env (df @ rest) = for_each (gen_body env) rest (snd (gen_loop env df))) \<and>
   (fst (cap_body lenv dsk lrow t) = Break) =
     (image_filename lrow \<in> dom dsk \<and>
      \<not> falsy (encode_image (png_base64 lenv) (image_filename lrow)) \<and>
      (\<forall>c. api lenv (length (requested t)) \<noteq> Content c) \<and>
      max_api_failures \<le> fail_count t + 1) \<and>
   max_api_failures = 10 \<and>
   (image_filename lrow \<in> dom dsk \<and>
    \<not> falsy (encode_image (png_base64 lenv) (image_filename lrow)) \<and>
    api lenv (length (requested t)) = Content c \<longrightarrow>
      fail_count (snd (cap_body lenv dsk lrow t)) = 0) \<and>
   (image_filename lrow \<in> dom dsk \<and>
    falsy (encode_image (png_base64 lenv) (image_filename lrow)) \<longrightarrow>
      cap_body lenv dsk lrow t = (Next, t\<lparr>fail_count := fail_count t + 1\<rparr>)) \<and>
   (image_filename lrow \<in> dom dsk \<and>
    \<not> falsy (encode_image (png_base64 lenv) (image_filename lrow)) \<and>
    (\<forall>c. api lenv (length (requested t)) \<noteq> Content c) \<longrightarrow>
      cap_body lenv dsk lrow t =
        (if max_api_failures \<le> fail_count t + 1 then Break else Next,
         t\<lparr>requested := requested t @ [image_filename lrow], fail_count := fail_count t + 1\<rparr>)) \<and>
   (image_filename lrow \<notin> dom dsk \<longrightarrow> cap_body lenv dsk lrow t = (Next, t)) \<and>
   (falsy (encode_image (png_base64 env) (image_filename row)) \<longrightarrow>
      gen_body env row s =
        (if max_failures \<le> fail_count s + 1 then Break else Next,
         s\<lparr>records := records s @ [with_caption row (image_filename row) None],
           bad_files := insert (image_filename row) (bad_files s),
           fail_count := fail_count s + 1\<rparr>)) \<and>
   (\<not> falsy (encode_image (png_base64 env) (image_filename row)) \<and>
    api env (length (requested s)) = ApiError \<longrightarrow>
      gen_body env row s =
        (if max_failures \<le> fail_count s + 1 then Break else Next,
         s\<lparr>requested := requested s @ [image_filename row],
           records := records s @ [with_caption row (image_filename row) None],
           bad_files := insert (image_filename row) (bad_files s),
           fail_count := fail_count s + 1\<rparr>)) \<and>
   (\<not> falsy (encode_image (png_base64 env) (image_filename row)) \<and>
    api env (length (requested s)) \<noteq> ApiError \<longrightarrow>
      fst (gen_body env row s) = Next \<and>
      fail_count (snd (gen_body env row s)) = fail_count s)"
proof -
  have init: "fail_count gen_init < max_failures"
    by (simp add: gen_init_def max_failures_def)
  have c1: "fail_count (snd (gen_loop env df)) =
     length (filter (\<lambda>r. caption r = None) (records (snd (gen_loop env df))))"
    by (rule gen_count_loop)
  have c2: "fail_count (snd (gen_loop env df)) \<le> max_failures"
    unfolding gen_loop_def by (rule gen_for_each_bound [OF init])
  have c3: "fail_count (snd (gen_loop env df)) = max_failures \<longrightarrow>
      gen_loop env (df @ rest) = gen_loop env df"
    unfolding gen_loop_def using gen_for_each_stopped [OF init, of env df rest] by simp
  have c4: "fail_count (snd (gen_loop env df)) < max_failures \<longrightarrow>
      gen_loop env (df @ rest) = for_each (gen_body env) rest (snd (gen_loop env df))"
    unfolding gen_loop_def using gen_for_each_running [OF init, of env df rest] by simp
  have c5: "image_filename lrow \<in> dom dsk \<and>
    \<not> falsy (encode_image (png_base64 lenv) (image_filename lrow)) \<and>
    api lenv (length (requested t)) = Content c \<longrightarrow>
      fail_count (snd (cap_body lenv dsk lrow t)) = 0"
    by (simp add: cap_body_success)
  have c6: "image_filename lrow \<in> dom dsk \<and>
    falsy (encode_image (png_base64 lenv) (image_filename lrow)) \<longrightarrow>
      cap_body lenv dsk lrow t = (Next, t\<lparr>fail_count := fail_count t + 1\<rparr>)"
    by (simp add: cap_body_undecodable)
  have c7: "image_filename lrow \<in> dom dsk \<and>
    \<not> falsy (encode_image (png_base64 lenv) (image_filename lrow)) \<and>
    (\<forall>c. api lenv (length (requested t)) \<noteq> Content c) \<longrightarrow>
      cap_body lenv dsk lrow t =
        (if max_api_failures \<le> fail_count t + 1 then Break else Next,
         t\<lparr>requested := requested t @ [image_filename lrow], fail_count := fail_count t + 1\<rparr>)"
    by (cases "api lenv (length (requested t))") (simp_all add: cap_body_def Let_def)
  have c8: "image_filename lrow \<notin> dom dsk \<longrightarrow> cap_body lenv dsk lrow t = (Next, t)"
    by (simp add: cap_body_def Let_def)
  have c9: "falsy (encode_image (png_base64 env) (image_filename row)) \<longrightarrow>
      gen_body env row s =
        (if max_failures \<le> fail_count s + 1 then Break else Next,
         s\<lparr>records := records s @ [with_caption row (image_filename row) None],
           bad_files := insert (image_filename row) (bad_files s),
           fail_count := fail_count s + 1\<rparr>)"
    by (simp add: gen_body_def gen_fail_def Let_def)
  have c10: "\<not> falsy (encode_image (png_base64 env) (image_filename row)) \<and>
    api env (length (requested s)) = ApiError \<longrightarrow>
      gen_body env row s =
        (if max_failures \<le> fail_count s + 1 then Break else Next,
         s\<lparr>requested := requested s @ [image_filename row],
           records := records s @ [with_caption row (image_filename row) None],
           bad_files := insert (image_filename row) (bad_files s),
           fail_count := fail_count s + 1\<rparr>)"
    by (simp add: gen_body_def gen_fail_def Let_def)
  have c11: "\<not> falsy (encode_image (png_base64 env) (image_filename row)) \<and>
    api env (length (requested s)) \<noteq> ApiError \<longrightarrow>
      fst (gen_body env row s) = Next \<and>
      fail_count (snd (gen_body env row s)) = fail_count s"
    by (cases "api env (length (requested s))") (simp_all add: gen_body_def Let_def)
  have old: "fail_count (snd (gen_loop env df)) =
     length (filter (\<lambda>r. caption r = None) (records (snd (gen_loop env df)))) \<and>
   fail_count (snd (gen_loop env df)) \<le> max_failures \<and> max_failures = 10 \<and>
   (fail_count (snd (gen_loop env df)) = max_failures \<longrightarrow>
      gen_loop env (df @ rest) = gen_loop env df) \<and>
   (fail_count (snd (gen_loop env df)) < max_failures \<longrightarrow>
      gen_loop env (df @ rest) = for_each (gen_body env) rest (snd (gen_loop env df))) \<and>
   (fst (cap_body lenv dsk lrow t) = Break) =
     (image_filename lrow \<in> dom dsk \<and>
      \<not> falsy (encode_image (png_base64 lenv) (image_filename lrow)) \<and>
      (\<forall>c. api lenv (length (requested t)) \<noteq> Content c) \<and>
      max_api_failures \<le> fail_count t + 1) \<and>
   max_api_failures = 10"
    using c1 c2 c3 c4 cap_body_break [of lenv dsk lrow t]
    by (simp add: max_failures_def max_api_failures_def)
  show ?thesis
    by (intro conjI) (use old c5 c6 c7 c8 c9 c10 c11 in blast)+
qed


theorem failure_counters_witness:
  "fail_count (snd (gen_loop example_env (replicate 10 (example_row ''bad.jpg'')))) = 10 \<and>
   gen_loop example_env (replicate 10 (example_row ''bad.jpg'') @ [example_row ''ok.jpg'']) =
     gen_loop example_env (replicate 10 (example_row ''bad.jpg'')) \<and>
   fail_count (snd (gen_loop example_env [example_row ''bad.jpg''])) = 1 \<and>
   gen_loop example_env ([example_row ''bad.jpg''] @ [example_row ''ok.jpg'']) =
     for_each (gen_body example_env) [example_row ''ok.jpg'']
       (snd (gen_loop example_env [example_row ''bad.jpg''])) \<and>
   fail_count (snd (cap_body (lexica_env_of (\<lambda>n. Content ''a cat'')) (\<lambda>f. Some ''bytes'')
       (example_row ''ok.png'') (cap_init\<lparr>fail_count := 7\<rparr>))) = 0 \<and>
   cap_body (lexica_env_of (\<lambda>n. Content ''a cat'')) (\<lambda>f. Some ''bytes'')
       (example_row ''bad.png'') (cap_init\<lparr>fail_count := 12\<rparr>) =
     (Next, cap_init\<lparr>fail_count := 13\<rparr>) \<and>
   fst (cap_body (lexica_env_of (\<lambda>n. ApiError)) (\<lambda>f. Some ''bytes'')
       (example_row ''ok.png'') (cap_init\<lparr>fail_count := 9\<rparr>)) = Break \<and>
   cap_body (lexica_env_of (\<lambda>n. ApiError)) (\<lambda>f. Some ''bytes'')
       (example_row ''ok.png'') (cap_init\<lparr>fail_count := 9\<rparr>) =
     (Break, cap_init\<lparr>requested := [''ok.png''], fail_count := 10\<rparr>) \<and>
   gen_body (example_env\<lparr>api := \<lambda>n. ApiError\<rparr>) (example_row ''ok.jpg'') gen_init =
     (Next, gen_init\<lparr>requested := [''ok.jpg''],
        records := [with_caption (example_row ''ok.jpg'') ''ok.jpg'' None],
        bad_files := {''ok.jpg''}, fail_count := 1\<rparr>)"
proof -
  let ?bad = "example_row ''bad.jpg''" and ?ok = "example_row ''ok.jpg''"
  let ?le = "lexica_env_of (\<lambda>n. Content ''a cat'')" and ?dk = "\<lambda>f::string. Some ''bytes''"
  have ten: "fail_count (snd (gen_loop example_env (replicate 10 ?bad))) = max_failures"
    using ten_failures by (simp add: max_failures_def)
  have a: "gen_loop example_env (replicate 10 ?bad @ [?ok]) = gen_loop example_env (replicate 10 ?bad)"
    using failure_counters [of example_env "replicate 10 ?bad" "[?ok]"] ten by blast
  have one: "fail_count (snd (gen_loop example_env [?bad])) < max_failures"
    by (simp add: example_run1 max_failures_def)
  have b: "gen_loop example_env ([?bad] @ [?ok]) =
     for_each (gen_body example_env) [?ok] (snd (gen_loop example_env [?bad]))"
    using failure_counters [of example_env "[?bad]" "[?ok]"] one by blast
  have ok_png: "image_filename (example_row ''ok.png'') \<in> dom ?dk \<and>
      \<not> falsy (encode_image (png_base64 ?le) (image_filename (example_row ''ok.png''))) \<and>
      api ?le (length (requested (cap_init\<lparr>fail_count := 7\<rparr>))) = Content ''a cat''"
    by (simp add: example_row_def lexica_env_of_def encode_image_def falsy_def cap_init_def)
  have c: "fail_count (snd (cap_body ?le ?dk (example_row ''ok.png'') (cap_init\<lparr>fail_count := 7\<rparr>))) = 0"
    using failure_counters [of example_env "[]" "[]" ?le ?dk "example_row ''ok.png''"
        "cap_init\<lparr>fail_count := 7\<rparr>" "''a cat''"] ok_png by blast
  have bad_png: "image_filename (example_row ''bad.png'') \<in> dom ?dk \<and>
      falsy (encode_image (png_base64 ?le) (image_filename (example_row ''bad.png'')))"
    by (simp add: example_row_def lexica_env_of_def encode_image_def falsy_def)
  have d: "cap_body ?le ?dk (example_row ''bad.png'') (cap_init\<lparr>fail_count := 12\<rparr>) =
     (Next, cap_init\<lparr>fail_count := 13\<rparr>)"
    using failure_counters [of example_env "[]" "[]" ?le ?dk "example_row ''bad.png''"
        "cap_init\<lparr>fail_count := 12\<rparr>" "''a cat''"] bad_png by (simp add: cap_init_def)
  have brk: "image_filename (example_row ''ok.png'') \<in> dom ?dk \<and>
      \<not> falsy (encode_image (png_base64 (lexica_env_of (\<lambda>n. ApiError))) (image_filename (example_row ''ok.png''))) \<and>
      (\<forall>c. api (lexica_env_of (\<lambda>n. ApiError)) (length (requested (cap_init\<lparr>fail_count := 9\<rparr>))) \<noteq> Content c) \<and>
      max_api_failures \<le> fail_count (cap_init\<lparr>fail_count := 9\<rparr>) + 1"
    by (simp add: example_row_def lexica_env_of_def encode_image_def falsy_def cap_init_def max_api_failures_def)
  have e: "fst (cap_body (lexica_env_of (\<lambda>n. ApiError)) ?dk (example_row ''ok.png'') (cap_init\<lparr>fail_count := 9\<rparr>)) = Break"
    using failure_counters [of example_env "[]" "[]" "lexica_env_of (\<lambda>n. ApiError)" ?dk "example_row ''ok.png''"
        "cap_init\<lparr>fail_count := 9\<rparr>" "''a cat''"] brk by blast
  have brk2: "image_filename (example_row ''ok.png'') \<in> dom ?dk \<and>
      \<not> falsy (encode_image (png_base64 (lexica_env_of (\<lambda>n. ApiError))) (image_filename (example_row ''ok.png''))) \<and>
      (\<forall>c. api (lexica_env_of (\<lambda>n. ApiError)) (length (requested (cap_init\<lparr>fail_count := 9\<rparr>))) \<noteq> Content c)"
    using brk by blast
  have f: "cap_body (lexica_env_of (\<lambda>n. ApiError)) ?dk (example_row ''ok.png'') (cap_init\<lparr>fail_count := 9\<rparr>) =
     (Break, cap_init\<lparr>requested := [''ok.png''], fail_count := 10\<rparr>)"
    using failure_counters [where lenv = "lexica_env_of (\<lambda>n. ApiError)" and dsk = ?dk
        and lrow = "example_row ''ok.png''" and t = "cap_init\<lparr>fail_count := 9\<rparr>"] brk2
    by (simp add: cap_init_def max_api_failures_def example_row_def)
  have req: "\<not> falsy (encode_image (png_base64 (example_env\<lparr>api := \<lambda>n. ApiError\<rparr>))
        (image_filename (example_row ''ok.jpg''))) \<and>
      api (example_env\<lparr>api := \<lambda>n. ApiError\<rparr>) (length (requested gen_init)) = ApiError"
    by (simp add: example_env_def example_row_def encode_image_def falsy_def)
  have g: "gen_body (example_env\<lparr>api := \<lambda>n. ApiError\<rparr>) (example_row ''ok.jpg'') gen_init =
     (Next, gen_init\<lparr>requested := [''ok.jpg''],
        records := [with_caption (example_row ''ok.jpg'') ''ok.jpg'' None],
        bad_files := {''ok.jpg''}, fail_count := 1\<rparr>)"
    using failure_counters [where env = "example_env\<lparr>api := \<lambda>n. ApiError\<rparr>"
        and row = "example_row ''ok.jpg''" and s = gen_init] req
    by (simp add: gen_init_def max_failures_def example_row_def)
  show ?thesis using ten_failures a example_run1 b c d e f g by simp
qed

text \<open>
  The claim as stated fails in both scripts. In the metadata-driven captioner a caption
  after a failure leaves the counter at 1. In the dataset-driven captioner eleven
  images in a row that cannot be decoded bring the counter to 11 and the loop goes on:
  the twelfth image is requested and captioned.
\<close>

theorem failure_counter_not_consecutive:
  "fail_count (snd (gen_loop example_env [example_row ''bad.jpg'', example_row ''ok.jpg''])) = 1 \<and>
   map caption (records (snd (gen_loop example_env [example_row ''bad.jpg'', example_row ''ok.jpg'']))) =
     [None, Some ''a cat''] \<and>
   for_each (cap_body (lexica_env_of (\<lambda>n. Content ''a cat'')) (\<lambda>f. Some ''bytes''))
       (replicate 11 (example_row ''bad.png'')) cap_init =
     (None, cap_init\<lparr>fail_count := 11\<rparr>) \<and>
   for_each (cap_body (lexica_env_of (\<lambda>n. Content ''a cat'')) (\<lambda>f. Some ''bytes''))
       (replicate 11 (example_row ''bad.png'') @ [example_row ''ok.png'']) cap_init =
     (None, \<lparr>records = [with_caption (example_row ''ok.png'') (Some ''ok.png'') (Some ''a cat'')],
             requested = [''ok.png''], slept = [], fail_count = 0\<rparr>)"
proof -
  let ?le = "lexica_env_of (\<lambda>n. Content ''a cat'')" and ?dk = "\<lambda>f::string. Some ''bytes''"
  have bad_png: "image_filename (example_row ''bad.png'') \<in> dom ?dk"
      "falsy (encode_image (png_base64 ?le) (image_filename (example_row ''bad.png'')))"
    by (simp_all add: example_row_def lexica_env_of_def encode_image_def falsy_def)
  have r1: "for_each (cap_body ?le ?dk) (replicate 11 (example_row ''bad.png'')) cap_init =
     (None, cap_init\<lparr>fail_count := 11\<rparr>)"
    using cap_undecodable_run [OF bad_png, of 11 "[]" cap_init] by (simp add: cap_init_def)
  have r2: "for_each (cap_body ?le ?dk) (replicate 11 (example_row ''bad.png'') @ [example_row ''ok.png'']) cap_init =
     (None, \<lparr>records = [with_caption (example_row ''ok.png'') (Some ''ok.png'') (Some ''a cat'')],
             requested = [''ok.png''], slept = [], fail_count = 0\<rparr>)"
    using cap_undecodable_run [OF bad_png, of 11 "[example_row ''ok.png'']" cap_init]
    by (simp add: cap_init_def cap_body_def example_row_def lexica_env_of_def encode_image_def
        falsy_def with_caption_def strip_a_cat2 Let_def)
  show ?thesis using r1 r2 by (simp add: example_run with_caption_def)
qed

section \<open>Properties: the prompt consolidator\<close>

text \<open>
  The regular expression finds the first maximal run of digits and nothing else, and
  cutting the extension \<^verbatim>\<open>.txt\<close> off a name does not change what it finds.
\<close>

lemma greedy_digits_split:
  "\<exists>post. cs = greedy_digits cs @ post \<and> (\<forall>c \<in> set (greedy_digits cs). is_digit c) \<and>
      (post = [] \<or> \<not> is_digit (hd post))"
proof (induction cs)
  case Nil
  then show ?case by simp
next
  case (Cons c cs)
  then show ?case by (cases "is_digit c") auto
qed

lemma str_extract_digits_run:
  "str_extract_digits s = Some run \<Longrightarrow> first_digit_run s run"
proof (induction s)
  case Nil
  then show ?case by simp
next
  case (Cons c cs)
  show ?case
  proof (cases "is_digit c")
    case True
    then have run: "run = c # greedy_digits cs" using Cons.prems by simp
    obtain post where post: "cs = greedy_digits cs @ post"
        "\<forall>c \<in> set (greedy_digits cs). is_digit c" "post = [] \<or> \<not> is_digit (hd post)"
      using greedy_digits_split [of cs] by blast
    have "c # cs = [] @ run @ post" using run post(1) by simp
    then show ?thesis
      unfolding first_digit_run_def using run True post(2,3) by (intro exI [of _ "[]"] exI [of _ post]) auto
  next
    case False
    then have "str_extract_digits cs = Some run" using Cons.prems by simp
    from Cons.IH [OF this] obtain pre post where
      p: "cs = pre @ run @ post" "\<forall>c \<in> set pre. \<not> is_digit c" "run \<noteq> []"
         "\<forall>c \<in> set run. is_digit c" "post = [] \<or> \<not> is_digit (hd post)"
      unfolding first_digit_run_def by blast
    have "c # cs = (c # pre) @ run @ post" using p(1) by simp
    then show ?thesis
      unfolding first_digit_run_def using p(2-5) False
      by (intro exI [of _ "c # pre"] exI [of _ post]) auto
  qed
qed

lemma str_extract_digits_None:
  "(str_extract_digits s = None) = (\<forall>c \<in> set s. \<not> is_digit c)"
  by (induction s) auto

lemma greedy_digits_nondigit: "t = [] \<or> \<not> is_digit (hd t) \<Longrightarrow> greedy_digits t = []"
  by (cases t) auto

lemma greedy_digits_append:
  "t = [] \<or> \<not> is_digit (hd t) \<Longrightarrow> greedy_digits (cs @ t) = greedy_digits cs"
  by (induction cs) (simp_all add: greedy_digits_nondigit)

lemma str_extract_digits_append:
  "\<forall>c \<in> set t. \<not> is_digit c \<Longrightarrow> str_extract_digits (s @ t) = str_extract_digits s"
proof (induction s)
  case Nil
  then show ?case by (simp add: str_extract_digits_None)
next
  case (Cons c cs)
  have t: "t = [] \<or> \<not> is_digit (hd t)" using Cons.prems by (cases t) auto
  show ?case
    using Cons greedy_digits_append [OF t, of cs] by simp
qed

lemma txt_no_digit: "\<forall>c \<in> set ''.txt''. \<not> is_digit c"
  by (simp add: is_digit_def)

lemma endswith_txt_split: "endswith fname ''.txt'' \<Longrightarrow> \<exists>stem. fname = stem @ ''.txt''"
  unfolding endswith_def by (metis append_take_drop_id)

lemma before_last_dot_txt: "before_last_dot (stem @ ''.txt'') = stem"
  by (simp add: before_last_dot_def)

lemma splitext_root_digits:
  assumes "endswith fname ''.txt''"
  shows "str_extract_digits (splitext_root fname) = str_extract_digits fname"
proof -
  obtain stem where f: "fname = stem @ ''.txt''" using endswith_txt_split [OF assms] by blast
  have "splitext_root fname = stem \<or> splitext_root fname = fname"
    by (simp add: splitext_root_def f before_last_dot_txt)
  then show ?thesis
    using str_extract_digits_append [OF txt_no_digit, of stem] f by auto
qed


lemma greedy_digits_all:
  "\<forall>c \<in> set rs. is_digit c \<Longrightarrow> post = [] \<or> \<not> is_digit (hd post) \<Longrightarrow>
   greedy_digits (rs @ post) = rs"
  by (induction rs) (simp_all add: greedy_digits_nondigit)

lemma first_digit_run_extract:
  assumes "first_digit_run s run"
  shows "str_extract_digits s = Some run"
proof -
  obtain pre post where p: "s = pre @ run @ post" "\<forall>c \<in> set pre. \<not> is_digit c" "run \<noteq> []"
      "\<forall>c \<in> set run. is_digit c" "post = [] \<or> \<not> is_digit (hd post)"
    using assms unfolding first_digit_run_def by blast
  obtain c rs where run: "run = c # rs" using p(3) by (cases run) auto
  have "str_extract_digits (run @ post) = Some run"
    using p(4,5) run greedy_digits_all [of rs post] by simp
  moreover have "str_extract_digits (pre @ run @ post) = str_extract_digits (run @ post)"
    using p(2) by (induction pre) simp_all
  ultimately show ?thesis using p(1) by simp
qed

lemma set_txt_files: "set (txt_files fd) = {f \<in> set (listdir fd). endswith f ''.txt''}"
  by (simp add: txt_files_def)

lemma read_prompts_set:
  "set (read_prompts fd fs) =
     {(splitext_root f, strip c) | f c. f \<in> set fs \<and> read_text fd f = Some c}"
  by (induction fs) (auto split: option.splits)

lemma astype_int_col_Inr:
  "astype_int_col vs = Inr ns \<Longrightarrow>
   ns = map (\<lambda>v. int (dec_val (the v))) vs \<and> (\<forall>v \<in> set vs. v \<noteq> None)"
proof (induction vs arbitrary: ns)
  case Nil
  then show ?case by simp
next
  case (Cons v vs)
  then show ?case
    by (auto simp: astype_int_def split: sum.splits option.splits if_splits)
qed

lemma astype_int_col_None: "None \<in> set vs \<Longrightarrow> \<exists>e. astype_int_col vs = Inl e"
  by (induction vs) (auto simp: astype_int_def split: sum.splits option.splits)

lemma astype_int_col_ok:
  "(\<forall>v \<in> set vs. \<exists>ds. v = Some ds \<and> int (dec_val ds) < 2 ^ 63) \<Longrightarrow>
   \<exists>ns. astype_int_col vs = Inr ns"
  by (induction vs) (auto simp: astype_int_def split: sum.splits)

lemma map_zip_map:
  "map (\<lambda>(i, d). g i d) (zip (map f xs) xs) = map (\<lambda>d. g (f d) d) xs"
  by (induction xs) simp_all

lemma id_frame_Inr:
  assumes "id_frame fd = Inr df"
  shows "df = map (\<lambda>d. \<lparr>row_id = int (dec_val (the (str_extract_digits (fst d)))),
                         prompt_original = snd d\<rparr>) (read_prompts fd (txt_files fd))"
    and "\<forall>d \<in> set (read_prompts fd (txt_files fd)). str_extract_digits (fst d) \<noteq> None"
proof -
  let ?data = "read_prompts fd (txt_files fd)"
  obtain ids where ids: "astype_int_col (map (str_extract_digits \<circ> fst) ?data) = Inr ids"
      and df: "df = map (\<lambda>(i, d). \<lparr>row_id = i, prompt_original = snd d\<rparr>) (zip ids ?data)"
    using assms by (auto simp: id_frame_def Let_def split: if_splits sum.splits)
  have i: "ids = map (\<lambda>d. int (dec_val (the (str_extract_digits (fst d))))) ?data"
    using astype_int_col_Inr [OF ids] by (simp add: comp_def)
  show "df = map (\<lambda>d. \<lparr>row_id = int (dec_val (the (str_extract_digits (fst d)))),
                         prompt_original = snd d\<rparr>) ?data"
    unfolding df i
    by (rule map_zip_map [of "\<lambda>i d. \<lparr>row_id = i, prompt_original = snd d\<rparr>"])
  show "\<forall>d \<in> set ?data. str_extract_digits (fst d) \<noteq> None"
    using astype_int_col_Inr [OF ids] by auto
qed

lemma consolidate_Inr:
  assumes "consolidate fd = Inr rows"
  shows "\<exists>df. id_frame fd = Inr df \<and> rows = sort_key row_id df"
  using assms by (auto simp: consolidate_def split: sum.splits)

text \<open>The example folders, run.\<close>

lemma spec_example_output:
  "consolidate spec_example_folder =
     Inr [\<lparr>row_id = 2, prompt_original = ''c''\<rparr>, \<lparr>row_id = 3, prompt_original = ''a''\<rparr>,
          \<lparr>row_id = 10, prompt_original = ''b''\<rparr>]"
  unfolding spec_example_folder_def by code_simp

lemma digitless_output: "consolidate digitless_folder = Inl ValueError"
  unfolding digitless_folder_def by code_simp

lemma colliding_output:
  "consolidate colliding_folder =
     Inr [\<lparr>row_id = 1, prompt_original = ''b''\<rparr>, \<lparr>row_id = 1, prompt_original = ''a''\<rparr>]"
  unfolding colliding_folder_def by code_simp

lemma run_10: "first_digit_run ''10.txt'' ''10''"
  unfolding first_digit_run_def
  by (intro exI [of _ "[]"] exI [of _ "''.txt''"]) (simp add: is_digit_def)

text \<open>
  Claim C5, as the code has it. For a text file of the folder that can be read: when the
  run ends normally, the output has a row with the file's stripped text whose id is the
  number written by the first maximal run of digits of the file name. A name without a
  digit is not excluded: it makes the conversion to integers raise, and the run ends in
  that exception without output. The run does end normally when every readable text
  file has a first run of digits that denotes a number below \<open>2 ^ 63\<close>.
\<close>

theorem consolidate_ids:
  assumes "fname \<in> set (listdir fd)" and "endswith fname ''.txt''"
    and "read_text fd fname = Some content"
  shows "(consolidate fd = Inr rows \<longrightarrow>
            (\<exists>run. first_digit_run fname run \<and>
               \<lparr>row_id = int (dec_val run), prompt_original = strip content\<rparr> \<in> set rows)) \<and>
         ((\<forall>c \<in> set fname. \<not> is_digit c) \<longrightarrow> (\<exists>e. consolidate fd = Inl e)) \<and>
         ((\<forall>f \<in> set (listdir fd). endswith f ''.txt'' \<and> read_text fd f \<noteq> None \<longrightarrow>
              (\<exists>run. first_digit_run f run \<and> int (dec_val run) < 2 ^ 63)) \<longrightarrow>
            (\<exists>out. consolidate fd = Inr out))"
proof (intro conjI impI)
  let ?data = "read_prompts fd (txt_files fd)"
  have d: "(splitext_root fname, strip content) \<in> set ?data"
    using assms by (auto simp: read_prompts_set set_txt_files)
  have same: "str_extract_digits (splitext_root fname) = str_extract_digits fname"
    by (rule splitext_root_digits [OF assms(2)])
  {
    assume ok: "consolidate fd = Inr rows"
    obtain df where df: "id_frame fd = Inr df" "rows = sort_key row_id df"
      using consolidate_Inr [OF ok] by blast
    have "str_extract_digits (splitext_root fname) \<noteq> None"
      using id_frame_Inr(2) [OF df(1)] d by force
    then obtain run where run: "str_extract_digits fname = Some run" using same by auto
    have "\<lparr>row_id = int (dec_val run), prompt_original = strip content\<rparr> \<in> set df"
      unfolding id_frame_Inr(1) [OF df(1)] using d run same by force
    then have "\<lparr>row_id = int (dec_val run), prompt_original = strip content\<rparr> \<in> set rows"
      using df(2) by simp
    then show "\<exists>run. first_digit_run fname run \<and>
               \<lparr>row_id = int (dec_val run), prompt_original = strip content\<rparr> \<in> set rows"
      using str_extract_digits_run [OF run] by blast
  }
  {
    assume "\<forall>c \<in> set fname. \<not> is_digit c"
    then have "str_extract_digits (splitext_root fname) = None"
      using same by (simp add: str_extract_digits_None)
    then have "None \<in> set (map (str_extract_digits \<circ> fst) ?data)"
      using d by force
    from astype_int_col_None [OF this] show "\<exists>e. consolidate fd = Inl e"
      by (auto simp: consolidate_def id_frame_def Let_def)
  }
  {
    assume all: "\<forall>f \<in> set (listdir fd). endswith f ''.txt'' \<and> read_text fd f \<noteq> None \<longrightarrow>
              (\<exists>run. first_digit_run f run \<and> int (dec_val run) < 2 ^ 63)"
    have "\<forall>v \<in> set (map (str_extract_digits \<circ> fst) ?data). \<exists>ds. v = Some ds \<and> int (dec_val ds) < 2 ^ 63"
    proof
      fix v assume "v \<in> set (map (str_extract_digits \<circ> fst) ?data)"
      then obtain f c where f: "f \<in> set (listdir fd)" "endswith f ''.txt''" "read_text fd f = Some c"
          and v: "v = str_extract_digits (splitext_root f)"
        by (auto simp: read_prompts_set set_txt_files)
      obtain run where run: "first_digit_run f run" "int (dec_val run) < 2 ^ 63"
        using all f by auto
      have "v = Some run"
        using v splitext_root_digits [OF f(2)] first_digit_run_extract [OF run(1)] by simp
      then show "\<exists>ds. v = Some ds \<and> int (dec_val ds) < 2 ^ 63" using run(2) by blast
    qed
    from astype_int_col_ok [OF this] obtain ns where
      "astype_int_col (map (str_extract_digits \<circ> fst) ?data) = Inr ns" by blast
    moreover have "?data \<noteq> []" using d by auto
    ultimately show "\<exists>out. consolidate fd = Inr out"
      by (simp add: consolidate_def id_frame_def Let_def)
  }
qed

theorem consolidate_ids_witness:
  "(\<exists>run. first_digit_run ''10.txt'' run \<and>
      \<lparr>row_id = int (dec_val run), prompt_original = strip ''b''\<rparr> \<in>
        set [\<lparr>row_id = 2, prompt_original = ''c''\<rparr>, \<lparr>row_id = 3, prompt_original = ''a''\<rparr>,
             \<lparr>row_id = 10, prompt_original = ''b''\<rparr>]) \<and>
   (\<exists>e. consolidate digitless_folder = Inl e) \<and>
   (\<exists>out. consolidate spec_example_folder = Inr out)"
proof -
  have a: "''10.txt'' \<in> set (listdir spec_example_folder)" "endswith ''10.txt'' ''.txt''"
      "read_text spec_example_folder ''10.txt'' = Some ''b''"
    by (simp_all add: spec_example_folder_def endswith_def)
  have b: "''notes.txt'' \<in> set (listdir digitless_folder)" "endswith ''notes.txt'' ''.txt''"
      "read_text digitless_folder ''notes.txt'' = Some ''b''"
    by (simp_all add: digitless_folder_def endswith_def)
  have nodigit: "\<forall>c \<in> set ''notes.txt''. \<not> is_digit c" by (simp add: is_digit_def)
  have p1: "\<exists>run. first_digit_run ''10.txt'' run \<and>
      \<lparr>row_id = int (dec_val run), prompt_original = strip ''b''\<rparr> \<in>
        set [\<lparr>row_id = 2, prompt_original = ''c''\<rparr>, \<lparr>row_id = 3, prompt_original = ''a''\<rparr>,
             \<lparr>row_id = 10, prompt_original = ''b''\<rparr>]"
    using consolidate_ids [OF a, THEN conjunct1] spec_example_output by blast
  have p2: "\<exists>e. consolidate digitless_folder = Inl e"
    using consolidate_ids [OF b, THEN conjunct2, THEN conjunct1] nodigit by blast
  have runs: "\<forall>f \<in> set (listdir spec_example_folder).
      endswith f ''.txt'' \<and> read_text spec_example_folder f \<noteq> None \<longrightarrow>
        (\<exists>run. first_digit_run f run \<and> int (dec_val run) < 2 ^ 63)"
  proof -
    have "first_digit_run ''3.txt'' ''3''" "first_digit_run ''2.txt'' ''2''"
      unfolding first_digit_run_def
      by (intro exI [of _ "[]"] exI [of _ "''.txt''"], simp add: is_digit_def)+
    moreover have "int (dec_val ''3'') < 2 ^ 63" "int (dec_val ''2'') < 2 ^ 63" "int (dec_val ''10'') < 2 ^ 63"
      by (simp_all add: dec_val_def digit_val_def)
    ultimately show ?thesis using run_10 by (auto simp: spec_example_folder_def)
  qed
  have p3: "\<exists>out. consolidate spec_example_folder = Inr out"
    using consolidate_ids [OF a, THEN conjunct2, THEN conjunct2] runs by blast
  show ?thesis using p1 p2 p3 by blast
qed

text \<open>
  The claim as stated fails: with a readable file \<^verbatim>\<open>notes.txt\<close> in the folder the
  run does not complete without that file, it ends in \<^verbatim>\<open>ValueError\<close>.
\<close>

theorem digitless_name_fails:
  "''notes.txt'' \<in> set (txt_files digitless_folder) \<and>
   read_text digitless_folder ''notes.txt'' = Some ''b'' \<and>
   consolidate digitless_folder = Inl ValueError"
  using digitless_output by (simp add: set_txt_files digitless_folder_def endswith_def)

section \<open>Properties: the order of the output files\<close>

lemma example_model_output:
  "captions_sorted example_model_folder =
     Inr [\<lparr>cap_id = 2, prompt = ''two'', image_filename = ''2.png'', caption = ''a dog''\<rparr>,
          \<lparr>cap_id = 10, prompt = ''ten'', image_filename = ''10.png'', caption = ''a dog''\<rparr>]"
  unfolding example_model_folder_def by code_simp

lemma captions_sorted_Inr:
  "captions_sorted mf = Inr crows \<Longrightarrow> crows = sort_key cap_id (records (snd (process_model_folder mf)))"
  by (auto simp: captions_sorted_def split: prod.splits option.splits if_splits)

text \<open>
  Claim C6, as the code has it. The rows of the consolidator's output and of a model's
  sorted output are in ascending order of their ids and are, as a multiset, the rows
  built from the input files: sorting neither drops nor merges rows, so the ids are
  unique only when the numbers read from the file names are pairwise distinct, which
  no script checks. The three files \<^verbatim>\<open>3.txt\<close>, \<^verbatim>\<open>10.txt\<close>, \<^verbatim>\<open>2.txt\<close> with the
  texts a, b, c give the rows 2, 3, 10 with the texts c, a, b.
\<close>

theorem outputs_sorted:
  "(consolidate fd = Inr rows \<longrightarrow>
      sorted (map row_id rows) \<and> (\<exists>df. id_frame fd = Inr df \<and> mset rows = mset df)) \<and>
   (captions_sorted mf = Inr crows \<longrightarrow>
      sorted (map cap_id crows) \<and> mset crows = mset (records (snd (process_model_folder mf)))) \<and>
   consolidate spec_example_folder =
     Inr [\<lparr>row_id = 2, prompt_original = ''c''\<rparr>, \<lparr>row_id = 3, prompt_original = ''a''\<rparr>,
          \<lparr>row_id = 10, prompt_original = ''b''\<rparr>]"
proof (intro conjI impI)
  assume "consolidate fd = Inr rows"
  then obtain df where df: "id_frame fd = Inr df" "rows = sort_key row_id df"
    using consolidate_Inr by blast
  show "sorted (map row_id rows)" using df(2) by simp
  show "\<exists>df. id_frame fd = Inr df \<and> mset rows = mset df" using df by simp
next
  assume "captions_sorted mf = Inr crows"
  then have c: "crows = sort_key cap_id (records (snd (process_model_folder mf)))"
    by (rule captions_sorted_Inr)
  show "sorted (map cap_id crows)" using c by simp
  show "mset crows = mset (records (snd (process_model_folder mf)))" using c by simp
next
  show "consolidate spec_example_folder =
     Inr [\<lparr>row_id = 2, prompt_original = ''c''\<rparr>, \<lparr>row_id = 3, prompt_original = ''a''\<rparr>,
          \<lparr>row_id = 10, prompt_original = ''b''\<rparr>]"
    by (rule spec_example_output)
qed

theorem outputs_sorted_witness:
  "sorted (map row_id [\<lparr>row_id = 2, prompt_original = ''c''\<rparr>, \<lparr>row_id = 3, prompt_original = ''a''\<rparr>,
          \<lparr>row_id = 10, prompt_original = ''b''\<rparr>]) \<and>
   sorted (map cap_id
     [\<lparr>cap_id = 2, prompt = ''two'', image_filename = ''2.png'', caption = ''a dog''\<rparr>,
      \<lparr>cap_id = 10::int, prompt = ''ten'', image_filename = ''10.png'', caption = ''a dog''\<rparr>]) \<and>
   captions_sorted example_model_folder =
     Inr [\<lparr>cap_id = 2, prompt = ''two'', image_filename = ''2.png'', caption = ''a dog''\<rparr>,
          \<lparr>cap_id = 10, prompt = ''ten'', image_filename = ''10.png'', caption = ''a dog''\<rparr>]"
  using outputs_sorted [of spec_example_folder _ example_model_folder, THEN conjunct1, rule_format, OF spec_example_output]
    outputs_sorted [of spec_example_folder _ example_model_folder, THEN conjunct2, THEN conjunct1, rule_format, OF example_model_output]
    example_model_output
  by simp

text \<open>
  The claim as stated fails: the files \<^verbatim>\<open>1.txt\<close> and \<^verbatim>\<open>01.txt\<close> give two rows
  with the id 1.
\<close>

theorem ids_not_unique:
  "consolidate colliding_folder =
     Inr [\<lparr>row_id = 1, prompt_original = ''b''\<rparr>, \<lparr>row_id = 1, prompt_original = ''a''\<rparr>] \<and>
   \<not> distinct (map row_id [\<lparr>row_id = 1, prompt_original = ''b''\<rparr>, \<lparr>row_id = 1, prompt_original = ''a''\<rparr>])"
  using colliding_output by simp

section \<open>Properties: the auto-save of the multi-model captioner\<close>

text \<open>
  An item without prompt file leaves the loop body before the auto-save, whatever its
  index is: nothing is written, also at a multiple of the interval and at the last item.
\<close>

lemma model_body_missing_txt:
  "remove_png fname @ ''.txt'' \<notin> set (listdir fd) \<Longrightarrow> model_body fd len (idx, fname) s = (Next, s)"
  by (simp add: model_body_def Let_def)

text \<open>
  Claim C7 fails on the code. The folder has two images; the first is captioned, the
  second and last has no prompt file. When the loop is over, at the final item, the
  record of the first image is in memory and no checkpoint file has been written.
\<close>

theorem final_item_not_saved:
  "png_files unsaved_folder = [''1.png'', ''2.png''] \<and>
   process_model_folder unsaved_folder =
     (None, \<lparr>records = [\<lparr>cap_id = 1, prompt = ''one'', image_filename = ''1.png'', caption = ''a dog''\<rparr>],
             requested = [''1.png''], slept = [1.5], checkpoint = None\<rparr>)"
  unfolding unsaved_folder_def by code_simp

section \<open>Properties: the dataset-driven captioner\<close>

text \<open>The download step keeps its invariant, and a file that is there is only counted.\<close>

lemma extract_inv_except: "extract_inv d s \<Longrightarrow> extract_inv d (snd (extract_except s))"
  by (simp add: extract_inv_def extract_except_def Let_def)

lemma extract_inv_store:
  "extract_inv d s \<Longrightarrow> extract_inv d (snd (extract_store env p ext b s))"
  by (auto simp: extract_inv_def extract_store_def Let_def split: option.splits)

lemma extract_inv_fetched: "extract_inv d s \<Longrightarrow> extract_inv d (s\<lparr>fetched := n\<rparr>)"
  by (simp add: extract_inv_def)

lemma extract_inv_download:
  "extract_inv d s \<Longrightarrow> extract_inv d (snd (extract_download env p u s))"
  by (simp add: extract_download_def Let_def extract_inv_except extract_inv_store extract_inv_fetched
      split: option.splits)

lemma extract_inv_body:
  "extract_inv d s \<Longrightarrow> extract_inv d (snd (extract_body env row s))"
  by (simp add: extract_body_def Let_def extract_inv_store extract_inv_download
      split: option.splits img_data.splits)

lemma extract_inv_file:
  assumes inv: "extract_inv d s"
  shows "extract_inv d (snd (extract_file env shard s))"
proof (cases shard)
  case None
  then show ?thesis using inv by (simp add: extract_file_def)
next
  case (Some rows)
  have "extract_inv d (snd (for_each (extract_body env) rows s))"
    using inv by (rule for_each_invariant [where P = "extract_inv d"]) (rule extract_inv_body)
  then show ?thesis using Some inv by (simp add: extract_file_def Let_def)
qed

lemma extract_inv_run: "extract_inv d (extract_and_download env files d)"
proof -
  have "extract_inv d (extract_init d)" by (simp add: extract_inv_def extract_init_def)
  then show ?thesis
    unfolding extract_and_download_def
    by (rule for_each_invariant [where P = "extract_inv d"]) (rule extract_inv_file)
qed

lemma extract_store_exists:
  "bytes \<noteq> [] \<Longrightarrow> img_id_of (id_counter s) @ ''.'' @ img_ext \<in> dom (disk s) \<Longrightarrow>
   extract_store env p img_ext (Some bytes) s = (Next, s\<lparr>id_counter := id_counter s + 1\<rparr>)"
  by (simp add: extract_store_def Let_def)

lemma cap_requested_body:
  "set (requested t) \<subseteq> A \<Longrightarrow> image_filename row \<in> A \<Longrightarrow>
   set (requested (snd (cap_body env dsk row t))) \<subseteq> A"
  by (auto simp: cap_body_def Let_def split: api_result.splits)

lemma cap_requested_loop:
  "set (requested (snd (for_each (cap_body env dsk) queue cap_init))) \<subseteq> image_filename ` set queue"
  by (rule for_each_invariant) (simp_all add: cap_init_def cap_requested_body)

lemma work_queue_subset: "set (work_queue df csv) \<subseteq> set df"
  by (auto simp: work_queue_def split: option.splits)

lemma work_queue_not_existing:
  "r \<in> set (work_queue df csv) \<Longrightarrow> image_filename r \<notin> set (existing_captions csv)"
  by (auto simp: work_queue_def existing_captions_def split: option.splits)

lemma caption_images_requested:
  "set (requested (snd (caption_images env dsk df csv))) \<subseteq> image_filename ` set (work_queue df csv)"
  using cap_requested_loop [of env dsk "work_queue df csv"]
  by (simp add: caption_images_def Let_def cap_init_def)

lemma lexica_main_requested:
  "set (requested (snd (lexica_main env files d csv))) \<subseteq>
     image_filename ` set (work_queue (records (extract_and_download env files d)) csv)"
  using caption_images_requested [of env "disk (extract_and_download env files d)" "records (extract_and_download env files d)" csv]
  by (simp add: lexica_main_def Let_def cap_init_def)

text \<open>
  The caption loop: its records have pairwise different images, all from the work
  queue, and every one of them has a caption.
\<close>

lemma cap_body_records:
  "records (snd (cap_body env dsk row t)) = records t \<or>
   (\<exists>c. records (snd (cap_body env dsk row t)) =
      records t @ [with_caption row (Some (image_filename row)) (Some c)])"
  by (auto simp: cap_body_def Let_def split: api_result.splits)

lemma subset_chain: "A \<subseteq> B \<union> C \<Longrightarrow> B \<subseteq> D \<union> E \<Longrightarrow> C \<subseteq> E \<Longrightarrow> A \<subseteq> D \<union> E"
  by blast

lemma cap_records_loop:
  "distinct (map image_filename xs) \<Longrightarrow>
   distinct (map image_filename (records t)) \<Longrightarrow>
   (\<forall>r \<in> set xs. Some (image_filename r) \<notin> image_filename ` set (records t)) \<Longrightarrow>
   (\<forall>r \<in> set (records t). caption r \<noteq> None) \<Longrightarrow>
   distinct (map image_filename (records (snd (for_each (cap_body env dsk) xs t)))) \<and>
   image_filename ` set (records (snd (for_each (cap_body env dsk) xs t))) \<subseteq>
     image_filename ` set (records t) \<union> Some ` image_filename ` set xs \<and>
   (\<forall>r \<in> set (records (snd (for_each (cap_body env dsk) xs t))). caption r \<noteq> None)"
proof (induction xs arbitrary: t)
  case Nil
  then show ?case by simp
next
  case (Cons x xs)
  obtain c t' where b: "cap_body env dsk x t = (c, t')" by (cases "cap_body env dsk x t")
  have recs: "records t' = records t \<or>
      (\<exists>cap. records t' = records t @ [with_caption x (Some (image_filename x)) (Some cap)])"
    using cap_body_records [of env dsk x t] b by simp
  have d1: "distinct (map image_filename xs)" using Cons.prems(1) by simp
  have fresh: "Some (image_filename x) \<notin> image_filename ` set (records t)"
    using Cons.prems(3) by simp
  have nin: "image_filename x \<notin> image_filename ` set xs"
    using Cons.prems(1) by simp
  have others: "\<forall>r \<in> set xs. image_filename r \<noteq> image_filename x"
  proof
    fix r assume "r \<in> set xs"
    then have "image_filename r \<in> image_filename ` set xs" by (rule imageI)
    with nin show "image_filename r \<noteq> image_filename x" by auto
  qed
  have old: "\<forall>r \<in> set xs. Some (image_filename r) \<notin> image_filename ` set (records t)"
    using Cons.prems(3) by simp
  have d2: "distinct (map image_filename (records t'))"
    using recs
  proof
    assume "records t' = records t"
    then show ?thesis using Cons.prems(2) by simp
  next
    assume "\<exists>cap. records t' = records t @ [with_caption x (Some (image_filename x)) (Some cap)]"
    then obtain cap where "records t' = records t @ [with_caption x (Some (image_filename x)) (Some cap)]" ..
    then show ?thesis using Cons.prems(2) fresh by (simp add: with_caption_def)
  qed
  have d3: "\<forall>r \<in> set xs. Some (image_filename r) \<notin> image_filename ` set (records t')"
    using recs
  proof
    assume "records t' = records t"
    then show ?thesis using old by simp
  next
    assume "\<exists>cap. records t' = records t @ [with_caption x (Some (image_filename x)) (Some cap)]"
    then obtain cap where "records t' = records t @ [with_caption x (Some (image_filename x)) (Some cap)]" ..
    then show ?thesis using old others by (simp add: with_caption_def)
  qed
  have d4: "\<forall>r \<in> set (records t'). caption r \<noteq> None"
    using recs
  proof
    assume "records t' = records t"
    then show ?thesis using Cons.prems(4) by simp
  next
    assume "\<exists>cap. records t' = records t @ [with_caption x (Some (image_filename x)) (Some cap)]"
    then obtain cap where "records t' = records t @ [with_caption x (Some (image_filename x)) (Some cap)]" ..
    then show ?thesis using Cons.prems(4) by (simp add: with_caption_def)
  qed
  have sub: "image_filename ` set (records t') \<subseteq>
      image_filename ` set (records t) \<union> Some ` image_filename ` set (x # xs)"
    using recs
  proof
    assume "records t' = records t"
    then show ?thesis by auto
  next
    assume "\<exists>cap. records t' = records t @ [with_caption x (Some (image_filename x)) (Some cap)]"
    then obtain cap where "records t' = records t @ [with_caption x (Some (image_filename x)) (Some cap)]" ..
    then show ?thesis by (simp add: with_caption_def) blast
  qed
  show ?case
  proof (cases c)
    case Next
    let ?r = "for_each (cap_body env dsk) xs t'"
    have eq: "for_each (cap_body env dsk) (x # xs) t = ?r"
      using b Next by simp
    note IH = Cons.IH [OF d1 d2 d3 d4]
    have mono: "Some ` image_filename ` set xs \<subseteq> Some ` image_filename ` set (x # xs)"
      by (rule image_mono) (simp add: image_mono subset_insertI)
    have s2: "image_filename ` set (records (snd ?r)) \<subseteq>
        image_filename ` set (records t) \<union> Some ` image_filename ` set (x # xs)"
      by (rule subset_chain [OF IH [THEN conjunct2, THEN conjunct1] sub mono])
    show ?thesis
      unfolding eq
      by (intro conjI) (rule IH [THEN conjunct1], rule s2, rule IH [THEN conjunct2, THEN conjunct2])
  next
    case Break
    then have "for_each (cap_body env dsk) (x # xs) t = (None, t')" using b by simp
    then show ?thesis using d2 d4 sub by simp
  next
    case (Raise e)
    then have "for_each (cap_body env dsk) (x # xs) t = (Some e, t')" using b by simp
    then show ?thesis using d2 d4 sub by simp
  qed
qed

lemma work_queue_distinct:
  "distinct (map image_filename df) \<Longrightarrow> distinct (map image_filename (work_queue df csv))"
  by (cases csv) (simp_all add: work_queue_def distinct_map_filter)

lemma kept_rows_existing:
  assumes "r \<in> set (kept_rows csv)" and "image_filename r = Some f"
  shows "f \<in> set (existing_captions csv)"
proof (cases csv)
  case None
  then show ?thesis using assms(1) by (simp add: kept_rows_def)
next
  case (Some rows)
  then have "r \<in> set rows" using assms(1) by (simp add: kept_rows_def)
  then have "image_filename r \<in> image_filename ` set rows" by (rule imageI)
  then have "Some f \<in> set (filter (\<lambda>v. v \<noteq> None) (map image_filename rows))"
    using assms(2) by simp
  then have "the (Some f) \<in> the ` set (filter (\<lambda>v. v \<noteq> None) (map image_filename rows))"
    by (rule imageI)
  then show ?thesis using Some by (simp add: existing_captions_def)
qed

lemma kept_rows_distinct:
  "distinct (map image_filename (case csv of None \<Rightarrow> [] | Some rows \<Rightarrow> rows)) \<Longrightarrow>
   distinct (map image_filename (kept_rows csv))"
  by (cases csv) (simp_all add: kept_rows_def distinct_map_filter)

lemma caption_images_cases:
  "(work_queue df csv = [] \<and> caption_images env dsk df csv = (csv, cap_init)) \<or>
   (work_queue df csv \<noteq> [] \<and>
    caption_images env dsk df csv =
      (Some (kept_rows csv @ records (snd (for_each (cap_body env dsk) (work_queue df csv) cap_init))),
       snd (for_each (cap_body env dsk) (work_queue df csv) cap_init)))"
  by (simp add: caption_images_def Let_def)

lemma cap_loop_facts:
  assumes q: "distinct (map image_filename df)"
  shows "distinct (map image_filename (records (snd (for_each (cap_body env dsk) (work_queue df csv) cap_init))))"
    and "image_filename ` set (records (snd (for_each (cap_body env dsk) (work_queue df csv) cap_init)))
           \<subseteq> Some ` image_filename ` set (work_queue df csv)"
    and "\<forall>r \<in> set (records (snd (for_each (cap_body env dsk) (work_queue df csv) cap_init))). caption r \<noteq> None"
proof -
  have i: "distinct (map image_filename (records cap_init))"
      "\<forall>r \<in> set (work_queue df csv). Some (image_filename r) \<notin> image_filename ` set (records cap_init)"
      "\<forall>r \<in> set (records cap_init). caption r \<noteq> None"
    by (simp_all add: cap_init_def)
  note L = cap_records_loop [OF work_queue_distinct [OF q, of csv] i, of env dsk]
  show "distinct (map image_filename (records (snd (for_each (cap_body env dsk) (work_queue df csv) cap_init))))"
    by (rule L [THEN conjunct1])
  have "image_filename ` set (records cap_init) = {}" by (simp add: cap_init_def)
  then show "image_filename ` set (records (snd (for_each (cap_body env dsk) (work_queue df csv) cap_init)))
           \<subseteq> Some ` image_filename ` set (work_queue df csv)"
    using L [THEN conjunct2, THEN conjunct1] by simp
  show "\<forall>r \<in> set (records (snd (for_each (cap_body env dsk) (work_queue df csv) cap_init))). caption r \<noteq> None"
    by (rule L [THEN conjunct2, THEN conjunct2])
qed

lemma kept_new_disjoint:
  assumes q: "distinct (map image_filename df)"
  shows "image_filename ` set (kept_rows csv) \<inter>
         image_filename ` set (records (snd (for_each (cap_body env dsk) (work_queue df csv) cap_init))) = {}"
proof -
  let ?s = "snd (for_each (cap_body env dsk) (work_queue df csv) cap_init)"
  have "\<And>r r'. r \<in> set (kept_rows csv) \<Longrightarrow> r' \<in> set (records ?s) \<Longrightarrow>
          image_filename r \<noteq> image_filename r'"
  proof
    fix r r' assume r: "r \<in> set (kept_rows csv)" and r': "r' \<in> set (records ?s)"
      and eq: "image_filename r = image_filename r'"
    have "image_filename r' \<in> image_filename ` set (records ?s)" using r' by (rule imageI)
    then have "image_filename r' \<in> Some ` image_filename ` set (work_queue df csv)"
      using cap_loop_facts(2) [OF q, of env dsk csv] by (rule rev_subsetD)
    then obtain x where x: "x \<in> set (work_queue df csv)" "image_filename r' = Some (image_filename x)"
      by (elim imageE) simp
    have "image_filename x \<in> set (existing_captions csv)"
      using kept_rows_existing [OF r] eq x(2) by simp
    then show False using work_queue_not_existing [OF x(1)] by simp
  qed
  then show ?thesis by (intro equals0I) (elim IntE imageE, metis)
qed

text \<open>The example runs of the whole pipeline.\<close>

lemma existing_image_run:
  "lexica_main (lexica_env_of (\<lambda>n. Content ''a cat'')) example_shards
       [''img_0000001.png'' \<mapsto> ''old''] None =
     (Some [captioned_row ''2'' (Some ''a cat'')],
      \<lparr>records = [captioned_row ''2'' (Some ''a cat'')], requested = [''img_0000002.png''],
       slept = [], fail_count = 0\<rparr>)"
  unfolding example_shards_def bytes_row_def lexica_env_of_def captioned_row_def by code_simp

lemma rerun_run:
  "lexica_main (lexica_env_of (\<lambda>n. Content ''a cat'')) example_shards Map.empty
       (Some [captioned_row ''1'' (Some ''a dog'')]) =
     (Some [captioned_row ''1'' (Some ''a dog''), captioned_row ''2'' (Some ''a cat'')],
      \<lparr>records = [captioned_row ''2'' (Some ''a cat'')], requested = [''img_0000002.png''],
       slept = [], fail_count = 0\<rparr>)"
  unfolding example_shards_def bytes_row_def lexica_env_of_def captioned_row_def by code_simp

lemma uncaptioned_run:
  "lexica_main (lexica_env_of (\<lambda>n. Content ''a cat'')) example_shards Map.empty
       (Some [captioned_row ''1'' None]) =
     (Some [captioned_row ''2'' (Some ''a cat'')],
      \<lparr>records = [captioned_row ''2'' (Some ''a cat'')], requested = [''img_0000002.png''],
       slept = [], fail_count = 0\<rparr>)"
  unfolding example_shards_def bytes_row_def lexica_env_of_def captioned_row_def by code_simp

lemma lexica_main_cases:
  "lexica_main env files d csv = (csv, cap_init) \<or>
   lexica_main env files d csv =
     caption_images env (disk (extract_and_download env files d))
       (records (extract_and_download env files d)) csv"
  by (simp add: lexica_main_def Let_def)

lemma existing_mem:
  assumes "r \<in> set rows" and "image_filename r = Some X"
  shows "X \<in> set (existing_captions (Some rows))"
proof -
  have "image_filename r \<in> image_filename ` set rows" using assms(1) by (rule imageI)
  then have "Some X \<in> set (filter (\<lambda>v. v \<noteq> None) (map image_filename rows))"
    using assms(2) by simp
  then have "the (Some X) \<in> the ` set (filter (\<lambda>v. v \<noteq> None) (map image_filename rows))"
    by (rule imageI)
  then show ?thesis by (simp add: existing_captions_def)
qed

lemma existing_not_requested:
  assumes "X \<in> set (existing_captions csv)"
  shows "X \<notin> set (requested (snd (lexica_main env files d csv)))"
proof
  assume "X \<in> set (requested (snd (lexica_main env files d csv)))"
  then have "X \<in> image_filename ` set (work_queue (records (extract_and_download env files d)) csv)"
    using lexica_main_requested [of env files d csv] by (rule rev_subsetD)
  then obtain r where "r \<in> set (work_queue (records (extract_and_download env files d)) csv)"
      "X = image_filename r" by (elim imageE)
  then show False using work_queue_not_existing [of r] assms by simp
qed

text \<open>
  The caption loop has one record for each request that the service answers with a
  caption, and the rows kept of the old file are those with a caption.
\<close>

lemma answered_Suc:
  "answered srv (Suc n) =
     answered srv n + (case srv n of Content c \<Rightarrow> 1 | RateLimited \<Rightarrow> 0 | ApiError \<Rightarrow> 0)"
  by (simp add: answered_def split: api_result.splits)

lemma cap_answered_body:
  "length (records t) = answered (api env) (length (requested t)) \<Longrightarrow>
   length (records (snd (cap_body env dsk row t))) =
     answered (api env) (length (requested (snd (cap_body env dsk row t))))"
  by (simp add: cap_body_def Let_def answered_Suc split: api_result.splits)

lemma cap_answered_loop:
  "length (records (snd (for_each (cap_body env dsk) queue cap_init))) =
     answered (api env) (length (requested (snd (for_each (cap_body env dsk) queue cap_init))))"
  by (rule for_each_invariant) (simp_all add: cap_init_def answered_def cap_answered_body)

lemma kept_rows_filter:
  "kept_rows csv = filter (\<lambda>r. caption r \<noteq> None) (case csv of None \<Rightarrow> [] | Some rows \<Rightarrow> rows)"
  by (cases csv) (simp_all add: kept_rows_def)

lemma rerun_run_dropping:
  "lexica_main (lexica_env_of (\<lambda>n. Content ''a cat'')) example_shards Map.empty
       (Some [captioned_row ''1'' (Some ''a dog''), captioned_row ''3'' None]) =
     (Some [captioned_row ''1'' (Some ''a dog''), captioned_row ''2'' (Some ''a cat'')],
      \<lparr>records = [captioned_row ''2'' (Some ''a cat'')], requested = [''img_0000002.png''],
       slept = [], fail_count = 0\<rparr>)"
  unfolding example_shards_def bytes_row_def lexica_env_of_def captioned_row_def by code_simp

text \<open>
  Claim C2. Let the output file, if there is one, have no image file name twice. Then
  a run of the pipeline issues no request for an image \<open>X\<close> that the file captions.
  It either leaves the file as it is, issuing no request at all, or rewrites it: the
  new file holds the rows of the old file that have a caption, followed by the records
  of this run, and its row count is the number of old rows with a caption plus the
  number of requests of this run that were answered with a caption. The run has one
  record per answered request, every record has a caption, and the file has again no
  image file name twice.
\<close>

theorem rerun_skips_captioned:
  assumes "distinct (map image_filename (case output_csv of None \<Rightarrow> [] | Some rows \<Rightarrow> rows))"
  shows "(output_csv = Some rows \<and> r \<in> set rows \<and> image_filename r = Some X \<and> caption r \<noteq> None \<longrightarrow>
            X \<notin> set (requested (snd (lexica_main env files d output_csv)))) \<and>
         ((fst (lexica_main env files d output_csv) = output_csv \<and>
           requested (snd (lexica_main env files d output_csv)) = []) \<or>
          (\<exists>out. fst (lexica_main env files d output_csv) = Some out \<and>
             out = filter (\<lambda>p. caption p \<noteq> None) (case output_csv of None \<Rightarrow> [] | Some rows \<Rightarrow> rows) @
                   records (snd (lexica_main env files d output_csv)) \<and>
             length out =
               length (filter (\<lambda>p. caption p \<noteq> None) (case output_csv of None \<Rightarrow> [] | Some rows \<Rightarrow> rows)) +
               answered (api env) (length (requested (snd (lexica_main env files d output_csv)))))) \<and>
         length (records (snd (lexica_main env files d output_csv))) =
           answered (api env) (length (requested (snd (lexica_main env files d output_csv)))) \<and>
         (\<forall>n \<in> set (records (snd (lexica_main env files d output_csv))). caption n \<noteq> None) \<and>
         distinct (map image_filename
           (case fst (lexica_main env files d output_csv) of None \<Rightarrow> [] | Some out \<Rightarrow> out))"
proof -
  let ?x = "extract_and_download env files d"
  let ?q = "work_queue (records ?x) output_csv"
  let ?s = "snd (for_each (cap_body env (disk ?x)) ?q cap_init)"
  let ?prior = "filter (\<lambda>p. caption p \<noteq> None) (case output_csv of None \<Rightarrow> [] | Some rows \<Rightarrow> rows)"
  have dx: "distinct (map image_filename (records ?x))"
    using extract_inv_run [of d env files] by (simp add: extract_inv_def)
  have k: "kept_rows output_csv = ?prior" by (rule kept_rows_filter)
  have p1: "output_csv = Some rows \<and> r \<in> set rows \<and> image_filename r = Some X \<and> caption r \<noteq> None \<longrightarrow>
            X \<notin> set (requested (snd (lexica_main env files d output_csv)))"
    using existing_mem [of r rows X] existing_not_requested [of X output_csv env files d] by blast
  have unchanged: "lexica_main env files d output_csv = (output_csv, cap_init) \<Longrightarrow> ?thesis"
    using p1 assms by (simp add: cap_init_def answered_def)
  have written: "lexica_main env files d output_csv = (Some (kept_rows output_csv @ records ?s), ?s) \<Longrightarrow> ?thesis"
  proof -
    assume m: "lexica_main env files d output_csv = (Some (kept_rows output_csv @ records ?s), ?s)"
    have dd: "distinct (map image_filename (kept_rows output_csv @ records ?s))"
      using kept_rows_distinct [OF assms] cap_loop_facts(1) [OF dx, of env "disk ?x" output_csv]
        kept_new_disjoint [OF dx, of output_csv env "disk ?x"] by simp
    have n: "length (records ?s) = answered (api env) (length (requested ?s))"
      by (rule cap_answered_loop)
    show ?thesis
      using p1 cap_loop_facts(3) [OF dx, of env "disk ?x" output_csv] dd n
      by (simp add: m k)
  qed
  have "lexica_main env files d output_csv = (output_csv, cap_init) \<or>
      lexica_main env files d output_csv = (Some (kept_rows output_csv @ records ?s), ?s)"
    using lexica_main_cases [of env files d output_csv]
      caption_images_cases [of "records ?x" output_csv env "disk ?x"]
    by (elim disjE conjE) simp_all
  then show ?thesis
  proof
    assume "lexica_main env files d output_csv = (output_csv, cap_init)"
    then show ?thesis by (rule unchanged)
  next
    assume "lexica_main env files d output_csv = (Some (kept_rows output_csv @ records ?s), ?s)"
    then show ?thesis by (rule written)
  qed
qed

theorem rerun_skips_captioned_witness:
  "''img_0000001.png'' \<notin> set (requested (snd (lexica_main (lexica_env_of (\<lambda>n. Content ''a cat''))
       example_shards Map.empty (Some [captioned_row ''1'' (Some ''a dog''), captioned_row ''3'' None])))) \<and>
   fst (lexica_main (lexica_env_of (\<lambda>n. Content ''a cat'')) example_shards Map.empty
       (Some [captioned_row ''1'' (Some ''a dog''), captioned_row ''3'' None])) =
     Some [captioned_row ''1'' (Some ''a dog''), captioned_row ''2'' (Some ''a cat'')] \<and>
   length [captioned_row ''1'' (Some ''a dog''), captioned_row ''2'' (Some ''a cat'')] =
     length (filter (\<lambda>p. caption p \<noteq> None) [captioned_row ''1'' (Some ''a dog''), captioned_row ''3'' None]) +
     answered (\<lambda>n. Content ''a cat'') 1 \<and>
   distinct (map image_filename
     (case fst (lexica_main (lexica_env_of (\<lambda>n. Content ''a cat'')) example_shards Map.empty
          (Some [captioned_row ''1'' (Some ''a dog''), captioned_row ''3'' None])) of None \<Rightarrow> [] | Some out \<Rightarrow> out))"
proof -
  let ?csv = "Some [captioned_row ''1'' (Some ''a dog''), captioned_row ''3'' None]"
  let ?env = "lexica_env_of (\<lambda>n. Content ''a cat'')"
  have h: "distinct (map image_filename (case ?csv of None \<Rightarrow> [] | Some rows \<Rightarrow> rows))"
    by (simp add: captioned_row_def)
  note T = rerun_skips_captioned [OF h, of "[captioned_row ''1'' (Some ''a dog''), captioned_row ''3'' None]"
      "captioned_row ''1'' (Some ''a dog'')" "''img_0000001.png''" ?env example_shards Map.empty]
  have pre: "?csv = Some [captioned_row ''1'' (Some ''a dog''), captioned_row ''3'' None] \<and>
      captioned_row ''1'' (Some ''a dog'') \<in> set [captioned_row ''1'' (Some ''a dog''), captioned_row ''3'' None] \<and>
      image_filename (captioned_row ''1'' (Some ''a dog'')) = Some ''img_0000001.png'' \<and>
      caption (captioned_row ''1'' (Some ''a dog'')) \<noteq> None"
    by (simp add: captioned_row_def)
  have a: "''img_0000001.png'' \<notin> set (requested (snd (lexica_main ?env example_shards Map.empty ?csv)))"
    using T [THEN conjunct1] pre by blast
  have b: "length [captioned_row ''1'' (Some ''a dog''), captioned_row ''2'' (Some ''a cat'')] =
     length (filter (\<lambda>p. caption p \<noteq> None) [captioned_row ''1'' (Some ''a dog''), captioned_row ''3'' None]) +
     answered (\<lambda>n. Content ''a cat'') 1"
    by (simp add: captioned_row_def answered_def)
  have c: "distinct (map image_filename
     (case fst (lexica_main ?env example_shards Map.empty ?csv) of None \<Rightarrow> [] | Some out \<Rightarrow> out))"
    by (rule T [THEN conjunct2, THEN conjunct2, THEN conjunct2, THEN conjunct2])
  show ?thesis using a b c by (simp add: rerun_run_dropping)
qed

text \<open>
  A row of the download step that reaches the test for an existing file, and a row with
  a URL, which is fetched before that test.
\<close>

lemma url_ext_nonempty:
  "url_ext u \<in> set [''jpg'', ''jpeg'', ''png'', ''webp''] \<Longrightarrow> u \<noteq> []"
  by (auto simp: url_ext_def)

lemma extract_body_bytes_exists:
  assumes "str_or (text_col row) (prompt_col row) = Some p" and "p \<noteq> []"
    and "img_or (image_col row) (url_col row) = Some (BytesDict (Some bytes))" and "bytes \<noteq> []"
    and "img_id_of (id_counter s) @ ''.'' @ ''png'' \<in> dom (disk s)"
  shows "extract_body env row s = (Next, s\<lparr>id_counter := id_counter s + 1\<rparr>)"
  using assms extract_store_exists [of bytes s "''png''" env p]
  by (simp add: extract_body_def Let_def falsy_def falsy_img_def)

lemma extract_body_url:
  assumes "str_or (text_col row) (prompt_col row) = Some p" and "p \<noteq> []"
    and "img_or (image_col row) (url_col row) = Some (UrlStr u) \<or>
         img_or (image_col row) (url_col row) = Some (UrlDict (Some u))"
    and "url_ext u \<in> set [''jpg'', ''jpeg'', ''png'', ''webp'']"
  shows "extract_body env row s =
           (case http_get env (fetched s) of
              None \<Rightarrow> extract_except (s\<lparr>fetched := fetched s + 1\<rparr>)
            | Some content \<Rightarrow> extract_store env p (url_ext u) (Some content) (s\<lparr>fetched := fetched s + 1\<rparr>))"
proof -
  have u: "u \<noteq> []" using assms(4) by (rule url_ext_nonempty)
  have "extract_body env row s = extract_download env p u s"
    using assms(1,2,3) u by (auto simp: extract_body_def Let_def falsy_def falsy_img_def)
  moreover have "extract_download env p u s =
      (case http_get env (fetched s) of
         None \<Rightarrow> extract_except (s\<lparr>fetched := fetched s + 1\<rparr>)
       | Some content \<Rightarrow> extract_store env p (url_ext u) (Some content) (s\<lparr>fetched := fetched s + 1\<rparr>))"
    unfolding extract_download_def Let_def using assms(4) by (simp only: if_not_P not_not)
  ultimately show ?thesis by (rule trans)
qed

lemma extract_body_url_exists:
  assumes "str_or (text_col row) (prompt_col row) = Some p" and "p \<noteq> []"
    and "img_or (image_col row) (url_col row) = Some (UrlStr u) \<or>
         img_or (image_col row) (url_col row) = Some (UrlDict (Some u))"
    and "url_ext u \<in> set [''jpg'', ''jpeg'', ''png'', ''webp'']"
    and "http_get env (fetched s) = Some content" and "content \<noteq> []"
    and "img_id_of (id_counter s) @ ''.'' @ url_ext u \<in> dom (disk s)"
  shows "extract_body env row s =
           (Next, s\<lparr>fetched := fetched s + 1, id_counter := id_counter s + 1\<rparr>)"
  using extract_body_url [OF assms(1-4), of env s] assms(5-7)
    extract_store_exists [of content "s\<lparr>fetched := fetched s + 1\<rparr>" "url_ext u" env p]
  by simp

lemma extract_body_url_failed:
  assumes "str_or (text_col row) (prompt_col row) = Some p" and "p \<noteq> []"
    and "img_or (image_col row) (url_col row) = Some (UrlStr u) \<or>
         img_or (image_col row) (url_col row) = Some (UrlDict (Some u))"
    and "url_ext u \<in> set [''jpg'', ''jpeg'', ''png'', ''webp'']"
    and "http_get env (fetched s) = None"
  shows "extract_body env row s =
           (if max_consecutive_fails \<le> consecutive_fails s + 1 then Break else Next,
            s\<lparr>fetched := fetched s + 1, consecutive_fails := consecutive_fails s + 1\<rparr>)"
  using extract_body_url [OF assms(1-4), of env s] assms(5)
  by (simp add: extract_except_def Let_def)

lemma url_ext_example: "url_ext ''http://x.org/a.jpg'' = ''jpg''"
  by code_simp

lemma img_id_1: "img_id_of (Suc 0) = ''img_0000001''"
  by code_simp

lemma url_row_cols:
  "str_or (text_col (url_row u)) (prompt_col (url_row u)) = Some ''a prompt''"
  "u \<noteq> [] \<Longrightarrow> img_or (image_col (url_row u)) (url_col (url_row u)) = Some (UrlStr u)"
  by (simp_all add: url_row_def str_or_def img_or_def falsy_def falsy_img_def)

lemma bytes_row_cols:
  "str_or (text_col (bytes_row b)) (prompt_col (bytes_row b)) = Some ''a prompt''"
  "img_or (image_col (bytes_row b)) (url_col (bytes_row b)) = Some (BytesDict (Some b))"
  by (simp_all add: bytes_row_def str_or_def img_or_def falsy_def falsy_img_def)

text \<open>
  Claim C10, as the code has it. A row that carries its image bytes and whose image
  file is in the folder already only moves the id counter: no record, no change of the
  folder or of the failure counter. A row with a URL is fetched first: when the fetch
  succeeds and the file is there, the row only moves the id counter (and has cost one
  request); when the fetch fails, the row counts as a failure, the id counter stays,
  and the loop is left at 20 failures in a row, whether the file is there or not. In
  every case a file that was in the image folder before the run is in no record of the
  download step, and the run issues no captioning request for it.
\<close>

theorem existing_image_skipped:
  "(str_or (text_col row) (prompt_col row) = Some p \<and> p \<noteq> [] \<and>
    img_or (image_col row) (url_col row) = Some (BytesDict (Some bytes)) \<and> bytes \<noteq> [] \<and>
    img_id_of (id_counter s) @ ''.'' @ ''png'' \<in> dom (disk s) \<longrightarrow>
      extract_body env row s = (Next, s\<lparr>id_counter := id_counter s + 1\<rparr>)) \<and>
   (str_or (text_col row) (prompt_col row) = Some p \<and> p \<noteq> [] \<and>
    (img_or (image_col row) (url_col row) = Some (UrlStr u) \<or>
     img_or (image_col row) (url_col row) = Some (UrlDict (Some u))) \<and>
    url_ext u \<in> set [''jpg'', ''jpeg'', ''png'', ''webp''] \<and>
    http_get env (fetched s) = Some content \<and> content \<noteq> [] \<and>
    img_id_of (id_counter s) @ ''.'' @ url_ext u \<in> dom (disk s) \<longrightarrow>
      extract_body env row s =
        (Next, s\<lparr>fetched := fetched s + 1, id_counter := id_counter s + 1\<rparr>)) \<and>
   (str_or (text_col row) (prompt_col row) = Some p \<and> p \<noteq> [] \<and>
    (img_or (image_col row) (url_col row) = Some (UrlStr u) \<or>
     img_or (image_col row) (url_col row) = Some (UrlDict (Some u))) \<and>
    url_ext u \<in> set [''jpg'', ''jpeg'', ''png'', ''webp''] \<and>
    http_get env (fetched s) = None \<longrightarrow>
      extract_body env row s =
        (if max_consecutive_fails \<le> consecutive_fails s + 1 then Break else Next,
         s\<lparr>fetched := fetched s + 1, consecutive_fails := consecutive_fails s + 1\<rparr>)) \<and>
   (f \<in> dom image_folder \<longrightarrow>
      f \<notin> image_filename ` set (records (extract_and_download env files image_folder)) \<and>
      f \<notin> set (requested (snd (lexica_main env files image_folder output_csv))))"
proof (intro conjI impI)
  assume "str_or (text_col row) (prompt_col row) = Some p \<and> p \<noteq> [] \<and>
    img_or (image_col row) (url_col row) = Some (BytesDict (Some bytes)) \<and> bytes \<noteq> [] \<and>
    img_id_of (id_counter s) @ ''.'' @ ''png'' \<in> dom (disk s)"
  then show "extract_body env row s = (Next, s\<lparr>id_counter := id_counter s + 1\<rparr>)"
    using extract_body_bytes_exists [of row p bytes s env] by blast
next
  assume "str_or (text_col row) (prompt_col row) = Some p \<and> p \<noteq> [] \<and>
    (img_or (image_col row) (url_col row) = Some (UrlStr u) \<or>
     img_or (image_col row) (url_col row) = Some (UrlDict (Some u))) \<and>
    url_ext u \<in> set [''jpg'', ''jpeg'', ''png'', ''webp''] \<and>
    http_get env (fetched s) = Some content \<and> content \<noteq> [] \<and>
    img_id_of (id_counter s) @ ''.'' @ url_ext u \<in> dom (disk s)"
  then show "extract_body env row s =
        (Next, s\<lparr>fetched := fetched s + 1, id_counter := id_counter s + 1\<rparr>)"
    using extract_body_url_exists [of row p u env s content] by blast
next
  assume "str_or (text_col row) (prompt_col row) = Some p \<and> p \<noteq> [] \<and>
    (img_or (image_col row) (url_col row) = Some (UrlStr u) \<or>
     img_or (image_col row) (url_col row) = Some (UrlDict (Some u))) \<and>
    url_ext u \<in> set [''jpg'', ''jpeg'', ''png'', ''webp''] \<and>
    http_get env (fetched s) = None"
  then show "extract_body env row s =
        (if max_consecutive_fails \<le> consecutive_fails s + 1 then Break else Next,
         s\<lparr>fetched := fetched s + 1, consecutive_fails := consecutive_fails s + 1\<rparr>)"
    using extract_body_url_failed [of row p u env s] by blast
next
  assume f: "f \<in> dom image_folder"
  have sub: "image_filename ` set (records (extract_and_download env files image_folder)) \<subseteq>
      dom (disk (extract_and_download env files image_folder)) - dom image_folder"
    using extract_inv_run [of image_folder env files] by (simp add: extract_inv_def)
  then show nr: "f \<notin> image_filename ` set (records (extract_and_download env files image_folder))"
    using f by blast
  have "set (requested (snd (lexica_main env files image_folder output_csv))) \<subseteq>
      image_filename ` set (records (extract_and_download env files image_folder))"
    using lexica_main_requested [of env files image_folder output_csv]
      image_mono [OF work_queue_subset [of "records (extract_and_download env files image_folder)" output_csv], of image_filename]
    by (rule subset_trans)
  then show "f \<notin> set (requested (snd (lexica_main env files image_folder output_csv)))"
    using nr by blast
qed

theorem existing_image_skipped_witness:
  "extract_body (lexica_env_of (\<lambda>n. Content ''a cat'')) (bytes_row ''bytes1'')
       (extract_init [''img_0000001.png'' \<mapsto> ''old'']) =
     (Next, (extract_init [''img_0000001.png'' \<mapsto> ''old''])\<lparr>id_counter := 2\<rparr>) \<and>
   extract_body (lexica_env_of (\<lambda>n. Content ''a cat'')) (url_row ''http://x.org/a.jpg'')
       (extract_init [''img_0000001.jpg'' \<mapsto> ''old'']) =
     (Next, (extract_init [''img_0000001.jpg'' \<mapsto> ''old''])\<lparr>fetched := 1, id_counter := 2\<rparr>) \<and>
   extract_body offline_env (url_row ''http://x.org/a.jpg'') (extract_init Map.empty) =
     (Next, (extract_init Map.empty)\<lparr>fetched := 1, consecutive_fails := 1\<rparr>) \<and>
   ''img_0000001.png'' \<notin> set (requested (snd (lexica_main (lexica_env_of (\<lambda>n. Content ''a cat''))
       example_shards [''img_0000001.png'' \<mapsto> ''old''] None))) \<and>
   requested (snd (lexica_main (lexica_env_of (\<lambda>n. Content ''a cat''))
       example_shards [''img_0000001.png'' \<mapsto> ''old''] None)) = [''img_0000002.png'']"
proof -
  let ?env = "lexica_env_of (\<lambda>n. Content ''a cat'')"
  let ?u = "''http://x.org/a.jpg''"
  have ext: "url_ext ?u \<in> set [''jpg'', ''jpeg'', ''png'', ''webp'']"
    by (simp add: url_ext_example)
  have p1: "str_or (text_col (bytes_row ''bytes1'')) (prompt_col (bytes_row ''bytes1'')) = Some ''a prompt'' \<and>
      ''a prompt'' \<noteq> [] \<and>
      img_or (image_col (bytes_row ''bytes1'')) (url_col (bytes_row ''bytes1'')) = Some (BytesDict (Some ''bytes1'')) \<and>
      ''bytes1'' \<noteq> [] \<and>
      img_id_of (id_counter (extract_init [''img_0000001.png'' \<mapsto> ''old''])) @ ''.'' @ ''png''
        \<in> dom (disk (extract_init [''img_0000001.png'' \<mapsto> ''old'']))"
    by (simp add: bytes_row_cols extract_init_def img_id_1)
  have a: "extract_body ?env (bytes_row ''bytes1'') (extract_init [''img_0000001.png'' \<mapsto> ''old'']) =
     (Next, (extract_init [''img_0000001.png'' \<mapsto> ''old''])\<lparr>id_counter := 2\<rparr>)"
    using existing_image_skipped [where row = "bytes_row ''bytes1''" and p = "''a prompt''"
        and bytes = "''bytes1''" and s = "extract_init [''img_0000001.png'' \<mapsto> ''old'']"
        and env = ?env, THEN conjunct1] p1
    by (simp add: extract_init_def)
  have p2: "str_or (text_col (url_row ?u)) (prompt_col (url_row ?u)) = Some ''a prompt'' \<and>
      ''a prompt'' \<noteq> [] \<and>
      (img_or (image_col (url_row ?u)) (url_col (url_row ?u)) = Some (UrlStr ?u) \<or>
       img_or (image_col (url_row ?u)) (url_col (url_row ?u)) = Some (UrlDict (Some ?u))) \<and>
      url_ext ?u \<in> set [''jpg'', ''jpeg'', ''png'', ''webp''] \<and>
      http_get ?env (fetched (extract_init [''img_0000001.jpg'' \<mapsto> ''old''])) = Some ''bytes'' \<and>
      ''bytes'' \<noteq> [] \<and>
      img_id_of (id_counter (extract_init [''img_0000001.jpg'' \<mapsto> ''old''])) @ ''.'' @ url_ext ?u
        \<in> dom (disk (extract_init [''img_0000001.jpg'' \<mapsto> ''old'']))"
    using ext by (simp add: url_row_cols extract_init_def img_id_1 url_ext_example lexica_env_of_def)
  have b: "extract_body ?env (url_row ?u) (extract_init [''img_0000001.jpg'' \<mapsto> ''old'']) =
     (Next, (extract_init [''img_0000001.jpg'' \<mapsto> ''old''])\<lparr>fetched := 1, id_counter := 2\<rparr>)"
    using existing_image_skipped [where row = "url_row ?u" and p = "''a prompt''" and u = ?u
        and content = "''bytes''" and s = "extract_init [''img_0000001.jpg'' \<mapsto> ''old'']"
        and env = ?env, THEN conjunct2, THEN conjunct1] p2
    by (simp add: extract_init_def)
  have p3: "str_or (text_col (url_row ?u)) (prompt_col (url_row ?u)) = Some ''a prompt'' \<and>
      ''a prompt'' \<noteq> [] \<and>
      (img_or (image_col (url_row ?u)) (url_col (url_row ?u)) = Some (UrlStr ?u) \<or>
       img_or (image_col (url_row ?u)) (url_col (url_row ?u)) = Some (UrlDict (Some ?u))) \<and>
      url_ext ?u \<in> set [''jpg'', ''jpeg'', ''png'', ''webp''] \<and>
      http_get offline_env (fetched (extract_init Map.empty)) = None"
    using ext by (simp add: url_row_cols offline_env_def)
  have c: "extract_body offline_env (url_row ?u) (extract_init Map.empty) =
     (Next, (extract_init Map.empty)\<lparr>fetched := 1, consecutive_fails := 1\<rparr>)"
    using existing_image_skipped [where row = "url_row ?u" and p = "''a prompt''" and u = ?u
        and s = "extract_init Map.empty" and env = offline_env,
        THEN conjunct2, THEN conjunct2, THEN conjunct1] p3
    by (simp add: extract_init_def max_consecutive_fails_def)
  have dm: "''img_0000001.png'' \<in> dom [''img_0000001.png'' \<mapsto> ''old'']" by simp
  have d: "''img_0000001.png'' \<notin> set (requested (snd (lexica_main ?env
       example_shards [''img_0000001.png'' \<mapsto> ''old''] None)))"
    using existing_image_skipped [where f = "''img_0000001.png''"
        and image_folder = "[''img_0000001.png'' \<mapsto> ''old'']"
        and env = ?env and files = example_shards
        and output_csv = None, THEN conjunct2, THEN conjunct2, THEN conjunct2] dm
    by blast
  show ?thesis using a b c d by (simp add: existing_image_run)
qed

text \<open>
  The claim as stated fails for a row with a URL: the image file of the row is in the
  folder, the fetch fails, and the row is not skipped with the id counter moved but
  counted as a failure; with 19 failures before it, it ends the loop.
\<close>

theorem existing_url_row_not_skipped:
  "img_id_of (id_counter (extract_init [''img_0000001.jpg'' \<mapsto> ''old''])) @ ''.'' @
       url_ext ''http://x.org/a.jpg'' = ''img_0000001.jpg'' \<and>
   ''img_0000001.jpg'' \<in> dom (disk (extract_init [''img_0000001.jpg'' \<mapsto> ''old''])) \<and>
   extract_body offline_env (url_row ''http://x.org/a.jpg'')
       (extract_init [''img_0000001.jpg'' \<mapsto> ''old'']) =
     (Next, (extract_init [''img_0000001.jpg'' \<mapsto> ''old''])\<lparr>fetched := 1, consecutive_fails := 1\<rparr>) \<and>
   extract_body offline_env (url_row ''http://x.org/a.jpg'')
       ((extract_init [''img_0000001.jpg'' \<mapsto> ''old''])\<lparr>consecutive_fails := 19\<rparr>) =
     (Break, (extract_init [''img_0000001.jpg'' \<mapsto> ''old''])\<lparr>fetched := 1, consecutive_fails := 20\<rparr>)"
proof -
  let ?u = "''http://x.org/a.jpg''"
  have ext: "url_ext ?u \<in> set [''jpg'', ''jpeg'', ''png'', ''webp'']"
    by (simp add: url_ext_example)
  have cols: "str_or (text_col (url_row ?u)) (prompt_col (url_row ?u)) = Some ''a prompt''"
      "''a prompt'' \<noteq> []"
      "img_or (image_col (url_row ?u)) (url_col (url_row ?u)) = Some (UrlStr ?u) \<or>
       img_or (image_col (url_row ?u)) (url_col (url_row ?u)) = Some (UrlDict (Some ?u))"
    by (simp_all add: url_row_cols)
  have off: "\<And>s. http_get offline_env (fetched s) = None" by (simp add: offline_env_def)
  show ?thesis
    using extract_body_url_failed [OF cols ext off, of "extract_init [''img_0000001.jpg'' \<mapsto> ''old'']"]
      extract_body_url_failed [OF cols ext off, of "(extract_init [''img_0000001.jpg'' \<mapsto> ''old''])\<lparr>consecutive_fails := 19\<rparr>"]
    by (simp add: extract_init_def max_consecutive_fails_def img_id_1 url_ext_example)
qed

text \<open>
  Claim C3 fails on the code. The output file has a row for the first image without a
  caption, and the download step delivers both images. The first image is taken out of
  the work queue all the same: it is not requested, and its row is dropped from the
  rewritten file, so the image is never captioned.
\<close>

theorem uncaptioned_row_dropped:
  "lexica_main (lexica_env_of (\<lambda>n. Content ''a cat'')) example_shards Map.empty
       (Some [captioned_row ''1'' None]) =
     (Some [captioned_row ''2'' (Some ''a cat'')],
      \<lparr>records = [captioned_row ''2'' (Some ''a cat'')], requested = [''img_0000002.png''],
       slept = [], fail_count = 0\<rparr>) \<and>
   image_filename ` set (records (extract_and_download (lexica_env_of (\<lambda>n. Content ''a cat''))
       example_shards Map.empty)) = {''img_0000001.png'', ''img_0000002.png''}"
proof -
  have "map image_filename (records (extract_and_download (lexica_env_of (\<lambda>n. Content ''a cat''))
       example_shards Map.empty)) = [''img_0000001.png'', ''img_0000002.png'']"
    unfolding example_shards_def bytes_row_def lexica_env_of_def by code_simp
  then have "set (map image_filename (records (extract_and_download (lexica_env_of (\<lambda>n. Content ''a cat''))
       example_shards Map.empty))) = {''img_0000001.png'', ''img_0000002.png''}"
    by simp
  then show ?thesis using uncaptioned_run by simp
qed

end
